theory Spec2Isabelle
  imports Main
begin

section \<open>Python strings and helpers\<close>

text \<open>
  A Python \<open>str\<close> is modelled as a \<open>string\<close>: one \<open>char\<close> per character of the
  Python string, so \<open>length\<close> is Python's \<open>len\<close> on the characters that fit a \<open>char\<close>.
\<close>

definition startswith :: "string \<Rightarrow> string \<Rightarrow> bool" where
  "startswith s p = (take (length p) s = p)"

section \<open>youtube_uploader.py: the upload pipeline\<close>

subsection \<open>Data\<close>

text \<open>
  The exceptions \<open>upload_video\<close> raises. The third one is a plain \<open>Exception\<close> whose
  message prints the size as a float; the model carries the byte count instead.
\<close>

datatype py_exception =
    PyException string
  | PyFileNotFoundError string
  | PyFileTooLarge nat

text \<open>The request body built by \<open>upload_video\<close> (\<open>snippet\<close> and \<open>status\<close> parts).\<close>

record video_body =
  snippet_title :: string
  snippet_description :: string
  snippet_tags :: "string list"
  snippet_categoryId :: string
  snippet_defaultLanguage :: string
  snippet_defaultAudioLanguage :: string
  status_privacyStatus :: string
  status_embeddable :: bool
  status_license :: string
  status_publicStatsViewable :: bool
  status_publishAt :: "string option"

text \<open>
  The response of a finished insert request: the code reads whether it has an \<open>id\<close> key,
  the value under it, and prints the whole response in one error message.
\<close>

datatype insert_response = InsertResponse (response_id: "string option") (response_str: string)

text \<open>
  What one call of \<open>insert_request.next_chunk()\<close> does: return \<open>(status, None)\<close>, return
  \<open>(status, response)\<close>, raise \<open>HttpError\<close> (with \<open>e.resp.status\<close> and \<open>str(e)\<close>), or raise
  any other \<open>Exception\<close> (with \<open>str(e)\<close>).
\<close>

datatype chunk_outcome =
    Progress
  | Completed insert_response
  | RaisesHttpError nat string
  | RaisesOther string

text \<open>
  One entry of \<open>video_info['items']\<close>: the three fields the code reads with \<open>.get\<close>.
\<close>

datatype video_data = VideoData
  (processingStatus: "string option") (uploadStatus: "string option") (privacyStatus: "string option")

text \<open>
  The follow-up \<open>videos().list(...).execute()\<close> together with the reads inside the same
  \<open>try\<close> block: anything raised there (with its \<open>str\<close>), or the list of items.
\<close>

datatype list_outcome = ListRaises string | ListItems "video_data list"

text \<open>
  The service object \<open>self.youtube\<close>: \<open>videos().insert(body)\<close> yields a request whose
  \<open>n\<close>-th call of \<open>next_chunk\<close> (counted from 0) has the given outcome.
\<close>

record service =
  videos_insert :: "video_body \<Rightarrow> nat \<Rightarrow> chunk_outcome"
  videos_list :: "string \<Rightarrow> list_outcome"

text \<open>The dict returned by \<open>_resumable_upload\<close>: \<open>'success': True\<close> or \<open>'success': False\<close>.\<close>

datatype upload_result =
    UploadSuccess (res_video_id: string) (res_url: string) (res_processing_status: string)
      (res_upload_status: string) (res_privacy_status: string) (res_warning: "string option")
  | UploadFailure (res_error: string)

definition success :: "upload_result \<Rightarrow> bool" where
  "success r = (case r of UploadSuccess _ _ _ _ _ _ \<Rightarrow> True | UploadFailure _ \<Rightarrow> False)"

text \<open>
  A finished run of \<open>_resumable_upload\<close>: the dict it returns, how many times it called
  \<open>next_chunk\<close>, and the arguments of its \<open>time.sleep\<close> calls in order.
\<close>

record upload_run =
  run_result :: upload_result
  run_attempts :: nat
  run_sleeps :: "nat list"

subsection \<open>\<open>_resumable_upload\<close>\<close>

definition get_or :: "'a option \<Rightarrow> 'a \<Rightarrow> 'a" where
  "get_or x d = (case x of None \<Rightarrow> d | Some v \<Rightarrow> v)"

text \<open>The body of \<open>if response is not None:\<close>.\<close>

definition on_response :: "(string \<Rightarrow> list_outcome) \<Rightarrow> insert_response \<Rightarrow> upload_result" where
  "on_response vlist response =
    (case response_id response of
       Some vid \<Rightarrow>
         (let video_url = ''https://www.youtube.com/watch?v='' @ vid in
          case vlist vid of
            ListItems (video_data # _) \<Rightarrow>
              UploadSuccess vid video_url
                (get_or (processingStatus video_data) ''unknown'')
                (get_or (uploadStatus video_data) ''unknown'')
                (get_or (privacyStatus video_data) ''unknown'')
                None
          | ListItems [] \<Rightarrow>
              UploadFailure ''Video uploaded but not found in channel. May need processing time.''
          | ListRaises info_error \<Rightarrow>
              UploadSuccess vid video_url ''unknown'' ''uploaded'' ''unknown''
                (Some (''Could not get video details: '' @ info_error)))
     | None \<Rightarrow> UploadFailure (''Upload failed: '' @ response_str response))"

definition retriable :: "nat \<Rightarrow> bool" where
  "retriable status = (status \<in> {500, 502, 503, 504})"

text \<open>
  One iteration of \<open>while response is None\<close> in the state (calls made, \<open>retry\<close>, sleeps so
  far): either the function returns (\<open>Inl\<close>) or the loop goes round again (\<open>Inr\<close>).
\<close>

definition upload_step ::
  "(nat \<Rightarrow> chunk_outcome) \<Rightarrow> (string \<Rightarrow> list_outcome) \<Rightarrow> nat \<times> nat \<times> nat list
     \<Rightarrow> upload_run + nat \<times> nat \<times> nat list" where
  "upload_step next_chunk vlist s =
    (case s of (n, retry, sl) \<Rightarrow>
      (case next_chunk n of
         Progress \<Rightarrow> Inr (Suc n, retry, sl)
       | Completed response \<Rightarrow>
           Inl \<lparr>run_result = on_response vlist response, run_attempts = Suc n, run_sleeps = sl\<rparr>
       | RaisesHttpError status e \<Rightarrow>
           if retriable status then
             (let retry' = retry + 1 in
              if retry' > 5 then
                Inl \<lparr>run_result = UploadFailure (''Max retries exceeded: '' @ e),
                     run_attempts = Suc n, run_sleeps = sl\<rparr>
              else Inr (Suc n, retry', sl @ [2 ^ retry']))
           else
             Inl \<lparr>run_result = UploadFailure (''HTTP Error: '' @ e),
                  run_attempts = Suc n, run_sleeps = sl\<rparr>
       | RaisesOther e \<Rightarrow>
           Inl \<lparr>run_result = UploadFailure (''Unexpected error: '' @ e),
                run_attempts = Suc n, run_sleeps = sl\<rparr>))"

text \<open>
  The loop itself. Nothing bounds the number of \<open>(status, None)\<close> answers, so the loop is
  a partial function: \<open>None\<close> is a call that never returns.
\<close>

partial_function (option) upload_loop ::
  "(nat \<Rightarrow> chunk_outcome) \<Rightarrow> (string \<Rightarrow> list_outcome) \<Rightarrow> nat \<times> nat \<times> nat list
     \<Rightarrow> upload_run option" where
  "upload_loop next_chunk vlist s =
    (case upload_step next_chunk vlist s of
       Inl r \<Rightarrow> Some r
     | Inr s' \<Rightarrow> upload_loop next_chunk vlist s')"

definition resumable_upload ::
  "(nat \<Rightarrow> chunk_outcome) \<Rightarrow> (string \<Rightarrow> list_outcome) \<Rightarrow> upload_run option" where
  "resumable_upload next_chunk vlist = upload_loop next_chunk vlist (0, 0, [])"

subsection \<open>\<open>upload_video\<close>\<close>

text \<open>
  The \<open>body\<close> dict of \<open>upload_video\<close>, with the title and the description cleaned as the
  source does just before building it; \<open>tags\<close> is \<open>None\<close> or a list.
\<close>

definition upload_body ::
  "string \<Rightarrow> string \<Rightarrow> string list option \<Rightarrow> string \<Rightarrow> string \<Rightarrow> video_body" where
  "upload_body title description tags category_id privacy_status =
    (let tags = (case tags of None \<Rightarrow> [] | Some ts \<Rightarrow> ts);
         title = (if length title > 100 then take 97 title @ ''...'' else title);
         description =
           (if length description > 5000 then take 4997 description @ ''...'' else description)
     in \<lparr>snippet_title = title,
         snippet_description = description,
         snippet_tags = take 30 tags,
         snippet_categoryId = category_id,
         snippet_defaultLanguage = ''en'',
         snippet_defaultAudioLanguage = ''en'',
         status_privacyStatus = privacy_status,
         status_embeddable = True,
         status_license = ''youtube'',
         status_publicStatsViewable = True,
         status_publishAt = None\<rparr>)"

text \<open>
  \<open>upload_video\<close>: \<open>youtube\<close> is \<open>self.youtube\<close> (\<open>None\<close> until \<open>authenticate\<close> has built the
  service), \<open>path_exists\<close> and \<open>getsize\<close> are \<open>os.path.exists\<close> and \<open>os.path.getsize\<close>. A raised
  exception is \<open>Inl\<close>; otherwise the value is what \<open>_resumable_upload\<close> returns.
\<close>

definition upload_video ::
  "service option \<Rightarrow> (string \<Rightarrow> bool) \<Rightarrow> (string \<Rightarrow> nat) \<Rightarrow>
   string \<Rightarrow> string \<Rightarrow> string \<Rightarrow> string list option \<Rightarrow> string \<Rightarrow> string \<Rightarrow>
   py_exception + upload_run option" where
  "upload_video youtube path_exists getsize video_file title description tags category_id
      privacy_status =
    (case youtube of
       None \<Rightarrow> Inl (PyException ''Not authenticated! Call authenticate() first.'')
     | Some yt \<Rightarrow>
         if \<not> path_exists video_file then
           Inl (PyFileNotFoundError
                  (''Video file '' @ [CHR 0x27] @ video_file @ [CHR 0x27] @ '' not found!''))
         else
           (let file_size = getsize video_file in
            if file_size > 256 * 1024 * 1024 * 1024 then Inl (PyFileTooLarge file_size)
            else
              (let body = upload_body title description tags category_id privacy_status
               in Inr (resumable_upload (videos_insert yt body) (videos_list yt)))))"

subsection \<open>Vocabulary for statements about the retry loop\<close>

text \<open>
  An outcome that makes the loop sleep and try again is an \<open>HttpError\<close> with a status the
  source lists as retriable.
\<close>

definition is_retry :: "chunk_outcome \<Rightarrow> bool" where
  "is_retry out = (case out of RaisesHttpError status _ \<Rightarrow> retriable status | _ \<Rightarrow> False)"

text \<open>How many of the calls \<open>0, ..., k - 1\<close> of \<open>next_chunk\<close> raised a retriable error.\<close>

definition retries_before :: "(nat \<Rightarrow> chunk_outcome) \<Rightarrow> nat \<Rightarrow> nat" where
  "retries_before next_chunk k = length (filter (\<lambda>i. is_retry (next_chunk i)) [0..<k])"

text \<open>The sleeps of the first \<open>m\<close> retries: \<open>2 ** 1, ..., 2 ** m\<close> seconds.\<close>

definition backoff :: "nat \<Rightarrow> nat list" where
  "backoff m = map (\<lambda>j. 2 ^ j) [1..<Suc m]"

subsection \<open>Concrete transports and services\<close>

text \<open>A transport whose every chunk fails with 503, one that fails with 501, one that
  reports an unfinished upload for ever, and one that fails twice with 503 and then
  completes with the id \<open>abc123\<close>.\<close>

definition always_503 :: "nat \<Rightarrow> chunk_outcome" where
  "always_503 n = RaisesHttpError 503 ''Service Unavailable''"

definition always_501 :: "nat \<Rightarrow> chunk_outcome" where
  "always_501 n = RaisesHttpError 501 ''Not Implemented''"

definition always_progress :: "nat \<Rightarrow> chunk_outcome" where
  "always_progress n = Progress"

definition flaky_then_done :: "nat \<Rightarrow> chunk_outcome" where
  "flaky_then_done n =
    (if n < 2 then RaisesHttpError 503 ''Service Unavailable''
     else Completed (InsertResponse (Some ''abc123'') ''{id: abc123}''))"

definition progress_then_broken_pipe :: "nat \<Rightarrow> chunk_outcome" where
  "progress_then_broken_pipe n = (if n < 1 then Progress else RaisesOther ''Broken pipe'')"

text \<open>A follow-up status query that raises, and one that finds no item.\<close>

definition list_times_out :: "string \<Rightarrow> list_outcome" where
  "list_times_out vid = ListRaises ''timed out''"

definition list_empty :: "string \<Rightarrow> list_outcome" where
  "list_empty vid = ListItems []"

definition demo_service :: service where
  "demo_service = \<lparr>videos_insert = (\<lambda>body. flaky_then_done), videos_list = list_times_out\<rparr>"

definition gib256 :: nat where
  "gib256 = 256 * 1024 * 1024 * 1024"

text \<open>A file system with one video file, of exactly 256 GiB or of one byte more.\<close>

definition one_file :: "string \<Rightarrow> bool" where
  "one_file path = (path = ''/videos/a.mp4'')"

definition size_256gib :: "string \<Rightarrow> nat" where
  "size_256gib path = gib256"

definition size_over_256gib :: "string \<Rightarrow> nat" where
  "size_over_256gib path = gib256 + 1"

section \<open>douyin_youtube_tool.py: the feed fetcher\<close>

subsection \<open>JSON values and the Python operations used on them\<close>

text \<open>
  What \<open>json.loads\<close> returns: \<open>None\<close>, a bool, a number, a string, a list, or a dict
  (its keys are distinct; \<open>map_of\<close> looks a key up).
\<close>

datatype json =
    JNull
  | JBool bool
  | JNum int
  | JStr string
  | JArr "json list"
  | JObj "(string \<times> json) list"

text \<open>Python's truth value of a decoded JSON value (\<open>if x:\<close>, \<open>not x\<close>).\<close>

fun truthy :: "json \<Rightarrow> bool" where
  "truthy JNull = False"
| "truthy (JBool b) = b"
| "truthy (JNum n) = (n \<noteq> 0)"
| "truthy (JStr s) = (s \<noteq> [])"
| "truthy (JArr xs) = (xs \<noteq> [])"
| "truthy (JObj kvs) = (kvs \<noteq> [])"

text \<open>\<open>d.get(key, default)\<close> on a dict.\<close>

definition dict_get :: "(string \<times> json) list \<Rightarrow> string \<Rightarrow> json \<Rightarrow> json" where
  "dict_get d key dflt = (case map_of d key of None \<Rightarrow> dflt | Some v \<Rightarrow> v)"

text \<open>\<open>sub in s\<close> on two strings.\<close>

fun contains :: "string \<Rightarrow> string \<Rightarrow> bool" where
  "contains sub [] = (sub = [])"
| "contains sub (c # cs) = (startswith (c # cs) sub \<or> contains sub cs)"

text \<open>
  \<open>s.replace(old, new)\<close>: every occurrence of \<open>old\<close>, found from the left and not
  overlapping, becomes \<open>new\<close> (\<open>old\<close> is not empty where the source calls it).
\<close>

fun py_replace :: "string \<Rightarrow> string \<Rightarrow> string \<Rightarrow> string" where
  "py_replace old new [] = []"
| "py_replace old new (c # cs) =
     (if startswith (c # cs) old then new @ py_replace old new (drop (length old - 1) cs)
      else c # py_replace old new cs)"

text \<open>
  The characters \<open>str.isspace\<close> and the pattern \<open>\s\<close> accept, and \<open>s.strip()\<close>.
\<close>

definition py_isspace :: "char \<Rightarrow> bool" where
  "py_isspace c =
    (of_char c \<in> {9, 10, 11, 12, 13, 28, 29, 30, 31, 32, 133, 160 :: nat})"

definition strip :: "string \<Rightarrow> string" where
  "strip s = rev (dropWhile py_isspace (rev (dropWhile py_isspace s)))"

subsection \<open>\<open>extract_video_url\<close>\<close>

text \<open>
  \<open>url_list[0]\<close> where it does not raise: the first element of a list, the first
  character of a string. Indexing a dict (its keys are strings), a number or a bool with
  \<open>0\<close> raises.
\<close>

fun first_item :: "json \<Rightarrow> json option" where
  "first_item (JArr (x # xs)) = Some x"
| "first_item (JStr (c # cs)) = Some (JStr [c])"
| "first_item _ = None"

text \<open>
  \<open>extract_video_url\<close>. The bare \<open>except\<close> turns every exception into the final
  \<open>return None\<close>: where a value that should be a dict is not one, either the \<open>in\<close> test is
  false or raises, or the subscript with a string key after it raises; and a first entry
  that is not a string has no \<open>startswith\<close>.
\<close>

definition extract_video_url :: "json \<Rightarrow> string option" where
  "extract_video_url video_data =
    (case video_data of
       JObj vd \<Rightarrow>
         (case map_of vd ''video'' of
            Some (JObj video_info) \<Rightarrow>
              (case map_of video_info ''play_addr'' of
                 Some (JObj play_addr) \<Rightarrow>
                   (case map_of play_addr ''url_list'' of
                      Some url_list \<Rightarrow>
                        if truthy url_list then
                          (case first_item url_list of
                             Some (JStr url) \<Rightarrow>
                               Some (if \<not> startswith url ''https''
                                     then py_replace ''http'' ''https'' url else url)
                           | _ \<Rightarrow> None)
                        else None
                    | None \<Rightarrow> None)
               | _ \<Rightarrow> None)
          | _ \<Rightarrow> None)
     | _ \<Rightarrow> None)"

subsection \<open>\<open>analyze_url\<close>\<close>

text \<open>
  The part of the tool's state \<open>analyze_url\<close> writes: \<open>self.video_urls\<close>; with it, every
  answer of \<open>fetch_api_data\<close> in the order of the calls, and whether an exception reached
  the outer \<open>except\<close> (the "Analysis failed" dialog).
\<close>

record analysis =
  video_urls :: "string list"
  pages :: "json option list"
  analysis_failed :: bool

text \<open>
  \<open>for video in aweme_list\<close>: the values the loop runs over (the elements of a list, the
  keys of a dict, the characters of a string), or \<open>None\<close> where iterating raises.
\<close>

fun py_iter :: "json \<Rightarrow> json list option" where
  "py_iter (JArr xs) = Some xs"
| "py_iter (JObj kvs) = Some (map (\<lambda>kv. JStr (fst kv)) kvs)"
| "py_iter (JStr s) = Some (map (\<lambda>c. JStr [c]) s)"
| "py_iter _ = None"

text \<open>The body of the \<open>for\<close> loop: a URL is appended when it is not \<open>None\<close> and not empty.\<close>

fun collect_urls :: "string list \<Rightarrow> json list \<Rightarrow> string list" where
  "collect_urls urls [] = urls"
| "collect_urls urls (video # rest) =
     (case extract_video_url video of
        Some video_url \<Rightarrow>
          if video_url \<noteq> [] then collect_urls (urls @ [video_url]) rest
          else collect_urls urls rest
      | None \<Rightarrow> collect_urls urls rest)"

text \<open>
  One round of \<open>while page <= 5\<close> after the fetch: the new state, and the next cursor when
  the loop goes on (\<open>None\<close> on \<open>break\<close> and on an exception). On data that is not a dict,
  \<open>'aweme_list' not in data\<close> is a membership test on a list and a substring test on a
  string, and raises on a number or \<open>True\<close>; after a positive test \<open>data.get\<close> raises.
\<close>

definition process_page :: "json option \<Rightarrow> analysis \<Rightarrow> analysis \<times> json option" where
  "process_page data st =
    (let st = st\<lparr>pages := pages st @ [data]\<rparr> in
     case data of
       None \<Rightarrow> (st, None)
     | Some d \<Rightarrow>
         if \<not> truthy d then (st, None)
         else
           (case d of
              JObj kvs \<Rightarrow>
                (case map_of kvs ''aweme_list'' of
                   None \<Rightarrow> (st, None)
                 | Some aweme_list \<Rightarrow>
                     (let has_more = dict_get kvs ''has_more'' (JBool False);
                          max_cursor = dict_get kvs ''max_cursor'' (JNum 0)
                      in case py_iter aweme_list of
                           None \<Rightarrow> (st\<lparr>analysis_failed := True\<rparr>, None)
                         | Some videos \<Rightarrow>
                             (let st = st\<lparr>video_urls := collect_urls (video_urls st) videos\<rparr>
                              in if \<not> truthy has_more then (st, None)
                                 else (st, Some max_cursor))))
            | JArr xs \<Rightarrow>
                if JStr ''aweme_list'' \<in> set xs then (st\<lparr>analysis_failed := True\<rparr>, None)
                else (st, None)
            | JStr s \<Rightarrow>
                if contains ''aweme_list'' s then (st\<lparr>analysis_failed := True\<rparr>, None)
                else (st, None)
            | _ \<Rightarrow> (st\<lparr>analysis_failed := True\<rparr>, None)))"

text \<open>
  The loop. \<open>fetch page max_cursor\<close> is \<open>fetch_api_data\<close> on the URL rewritten with
  \<open>max_cursor\<close>, as the server answers the \<open>page\<close>-th request of the session: the decoded
  body, or \<open>None\<close> on an error or a status other than 200.
\<close>

function analyze_loop ::
  "(nat \<Rightarrow> json \<Rightarrow> json option) \<Rightarrow> nat \<Rightarrow> json \<Rightarrow> analysis \<Rightarrow> analysis" where
  "analyze_loop fetch page max_cursor st =
    (if page \<le> 5 then
       (case process_page (fetch page max_cursor) st of
          (st', None) \<Rightarrow> st'
        | (st', Some max_cursor') \<Rightarrow> analyze_loop fetch (page + 1) max_cursor' st')
     else st)"
  by pat_completeness auto
termination
  by (relation "measure (\<lambda>(fetch, page, max_cursor, st). 6 - page)") auto

declare analyze_loop.simps [simp del]

text \<open>
  \<open>analyze_url\<close>: \<open>None\<close> is a return after an error dialog, before any request.
  \<open>extract_user_id\<close> is \<open>extract_user_id_from_api_url\<close> (the \<open>sec_user_id\<close> query
  parameter read by \<open>urlparse\<close> and \<open>parse_qs\<close>).
\<close>

definition analyze_url ::
  "(string \<Rightarrow> string option) \<Rightarrow> (nat \<Rightarrow> json \<Rightarrow> json option) \<Rightarrow> string \<Rightarrow> analysis option" where
  "analyze_url extract_user_id fetch url_var =
    (let url = strip url_var in
     if url = [] then None
     else if \<not> contains ''aweme/v1/web/aweme/post'' url then None
     else
       (case extract_user_id url of
          None \<Rightarrow> None
        | Some sec_user_id \<Rightarrow>
            if sec_user_id = [] then None
            else Some (analyze_loop fetch 1 (JNum 0)
                         \<lparr>video_urls = [], pages = [], analysis_failed = False\<rparr>)))"

subsection \<open>Vocabulary and concrete feeds\<close>

text \<open>
  An answer that ends the feed: no data (a failed request or an empty body), data without
  the key \<open>aweme_list\<close> (so any data that is not a dict), or \<open>has_more\<close> absent or false.
\<close>

definition end_of_feed :: "json option \<Rightarrow> bool" where
  "end_of_feed data =
    (case data of
       None \<Rightarrow> True
     | Some (JObj kvs) \<Rightarrow>
         kvs = [] \<or> map_of kvs ''aweme_list'' = None \<or>
         \<not> truthy (dict_get kvs ''has_more'' (JBool False))
     | Some _ \<Rightarrow> True)"

definition pages_fetched :: "analysis option \<Rightarrow> nat" where
  "pages_fetched r = (case r of None \<Rightarrow> 0 | Some a \<Rightarrow> length (pages a))"

text \<open>A feed item with a playable URL, and the same URL with \<open>http\<close> inside its query.\<close>

definition feed_item :: "string \<Rightarrow> json" where
  "feed_item u = JObj [(''video'', JObj [(''play_addr'', JObj [(''url_list'', JArr [JStr u])])])]"

definition nested_http_item :: json where
  "nested_http_item =
     feed_item ''http://v.example.com/play?src=http://cdn.example.com/a.mp4''"

text \<open>A server that always claims more pages, and one with a single page of two items
  (one without \<open>play_addr\<close>).\<close>

definition endless_feed :: "nat \<Rightarrow> json \<Rightarrow> json option" where
  "endless_feed page max_cursor =
     Some (JObj [(''aweme_list'', JArr [feed_item ''https://v.example.com/1.mp4'']),
                 (''has_more'', JNum 1),
                 (''max_cursor'', JNum (int page))])"

definition one_page_feed :: "nat \<Rightarrow> json \<Rightarrow> json option" where
  "one_page_feed page max_cursor =
     Some (JObj [(''aweme_list'',
                   JArr [feed_item ''http://v.example.com/1.mp4'', JObj [(''video'', JObj [])]]),
                 (''has_more'', JBool False),
                 (''max_cursor'', JNum 0)])"

definition user_abc123 :: "string \<Rightarrow> string option" where
  "user_abc123 url = Some ''ABC123''"

definition post_url :: string where
  "post_url = ''https://www.douyin.com/aweme/v1/web/aweme/post/?sec_user_id=ABC123''"

definition one_page_result :: analysis where
  "one_page_result =
     \<lparr>video_urls = [''https://v.example.com/1.mp4''],
      pages = [one_page_feed 1 (JNum 0)],
      analysis_failed = False\<rparr>"

section \<open>douyin_youtube_tool.py: the downloader\<close>

subsection \<open>Paths and file names\<close>

text \<open>
  \<open>os.path.join(a, b)\<close> and \<open>os.path.isabs\<close> as \<open>posixpath\<close> defines them for two
  components: an absolute \<open>b\<close> replaces \<open>a\<close>; otherwise a separator is put between them
  unless \<open>a\<close> is empty or ends with one.
\<close>

definition isabs :: "string \<Rightarrow> bool" where
  "isabs p = startswith p ''/''"

definition path_join :: "string \<Rightarrow> string \<Rightarrow> string" where
  "path_join a b =
    (if isabs b then b
     else if a = [] \<or> last a = CHR ''/'' then a @ b
     else a @ ''/'' @ b)"

text \<open>The decimal digits of a number, and \<open>f"video_{n:03d}.mp4"\<close>.\<close>

fun digits :: "nat \<Rightarrow> string" where
  "digits n =
    (if n < 10 then [char_of (48 + n)]
     else digits (n div 10) @ [char_of (48 + n mod 10)])"

declare digits.simps [simp del]

definition video_filename :: "nat \<Rightarrow> string" where
  "video_filename n =
    (let d = digits n in ''video_'' @ replicate (3 - length d) (CHR ''0'') @ d @ ''.mp4'')"

subsection \<open>The transport and the state\<close>

text \<open>
  What \<open>urllib.request.urlopen\<close> does for one request: raise (with \<open>str(e)\<close>), or return a
  response with a status whose \<open>read()\<close> raises (\<open>Inl\<close>) or yields the body (\<open>Inr\<close>).
\<close>

datatype url_reply = UrlRaises string | UrlResponse nat "string + string"

text \<open>
  The world of one download run: the reply to the request for item \<open>i\<close> (counted from 0),
  whether \<open>open(path, 'wb')\<close> and the write succeed, and \<open>get_file_size\<close> (a size printed
  with one decimal and a unit).
\<close>

record download_env =
  urlopen :: "nat \<Rightarrow> string \<Rightarrow> url_reply"
  writable :: "string \<Rightarrow> bool"
  get_file_size :: "string \<Rightarrow> string"

text \<open>The lines the downloader writes with \<open>self.log\<close>.\<close>

datatype log_line =
    LogDownloading nat
  | LogDownloadError nat string
  | LogDownloadComplete nat nat

text \<open>An entry of \<open>self.video_files\<close>.\<close>

record video_file =
  vf_path :: string
  vf_filename :: string
  vf_size :: string

text \<open>
  The state of \<open>download_videos\<close>: the two counters, \<open>self.video_files\<close>, the files on
  disk, the log, and for every pass of the loop the index, the URL and what
  \<open>download_single_video\<close> returned (the status shown in the row of that item).
\<close>

record download_state =
  successful :: nat
  failed :: nat
  video_files :: "video_file list"
  disk :: "string \<rightharpoonup> string"
  log :: "log_line list"
  attempts :: "(nat \<times> string \<times> bool) list"

subsection \<open>\<open>download_single_video\<close> and \<open>download_videos\<close>\<close>

text \<open>
  \<open>download_single_video\<close>: \<open>True\<close> only after a 200 response whose body was written;
  every exception is caught and logged, and the function returns \<open>False\<close>. The file is
  opened before the body is read, so a failing \<open>read()\<close> leaves an empty file.
\<close>

definition download_single_video ::
  "download_env \<Rightarrow> string \<Rightarrow> string \<Rightarrow> nat \<Rightarrow> download_state \<Rightarrow> bool \<times> download_state" where
  "download_single_video env url file_path index st =
    (let st = st\<lparr>log := log st @ [LogDownloading (index + 1)]\<rparr> in
     case urlopen env index url of
       UrlRaises e \<Rightarrow> (False, st\<lparr>log := log st @ [LogDownloadError (index + 1) e]\<rparr>)
     | UrlResponse status body \<Rightarrow>
         if status = 200 then
           (if \<not> writable env file_path then
              (False, st\<lparr>log := log st @ [LogDownloadError (index + 1) ''open'']\<rparr>)
            else
              (case body of
                 Inl e \<Rightarrow>
                   (False, st\<lparr>disk := (disk st)(file_path \<mapsto> []),
                               log := log st @ [LogDownloadError (index + 1) e]\<rparr>)
               | Inr content \<Rightarrow> (True, st\<lparr>disk := (disk st)(file_path \<mapsto> content)\<rparr>)))
         else (False, st))"

text \<open>The \<open>for i, url in enumerate(self.video_urls)\<close> loop, from index \<open>i\<close> on.\<close>

fun download_loop ::
  "download_env \<Rightarrow> string \<Rightarrow> nat \<Rightarrow> string list \<Rightarrow> download_state \<Rightarrow> download_state" where
  "download_loop env download_folder i [] st = st"
| "download_loop env download_folder i (url # rest) st =
    (let filename = video_filename (i + 1);
         file_path = path_join download_folder filename
     in case download_single_video env url file_path i st of
          (True, st) \<Rightarrow>
            download_loop env download_folder (i + 1) rest
              (st\<lparr>successful := successful st + 1,
                  video_files := video_files st @
                    [\<lparr>vf_path = file_path, vf_filename = filename,
                      vf_size = get_file_size env file_path\<rparr>],
                  attempts := attempts st @ [(i, url, True)]\<rparr>)
        | (False, st) \<Rightarrow>
            download_loop env download_folder (i + 1) rest
              (st\<lparr>failed := failed st + 1,
                  attempts := attempts st @ [(i, url, False)]\<rparr>))"

text \<open>
  \<open>download_videos\<close> on \<open>self.video_urls = urls\<close>, from the tool's state before the run:
  \<open>None\<close> is a return after an
  error dialog (nothing to download, no folder); otherwise the loop runs over the whole
  list and the \<open>finally\<close> block logs the totals. The widget updates are left out.
\<close>

definition download_videos ::
  "download_env \<Rightarrow> string \<Rightarrow> string list \<Rightarrow> download_state \<Rightarrow> download_state option" where
  "download_videos env download_folder urls st =
    (if urls = [] then None
     else if download_folder = [] then None
     else
       (let st = download_loop env download_folder 0 urls
                   (st\<lparr>successful := 0, failed := 0, attempts := []\<rparr>)
        in Some (st\<lparr>log := log st @ [LogDownloadComplete (successful st) (failed st)]\<rparr>)))"

subsection \<open>Vocabulary and a concrete run\<close>

text \<open>Whether the download of item \<open>i\<close> succeeds in a given world.\<close>

definition item_ok :: "download_env \<Rightarrow> string \<Rightarrow> nat \<Rightarrow> string \<Rightarrow> bool" where
  "item_ok env download_folder i url =
    (case urlopen env i url of
       UrlRaises e \<Rightarrow> False
     | UrlResponse status body \<Rightarrow>
         status = 200 \<and> writable env (path_join download_folder (video_filename (i + 1))) \<and>
         (case body of Inl e \<Rightarrow> False | Inr content \<Rightarrow> True))"

text \<open>What one pass of the loop records for a pair of index and URL.\<close>

definition outcome :: "download_env \<Rightarrow> string \<Rightarrow> nat \<times> string \<Rightarrow> nat \<times> string \<times> bool" where
  "outcome env download_folder a = (fst a, snd a, item_ok env download_folder (fst a) (snd a))"

text \<open>A world where the request for the second item (index 1) times out.\<close>

definition second_times_out :: download_env where
  "second_times_out =
     \<lparr>urlopen = (\<lambda>i url. if i = 1 then UrlRaises ''timed out''
                          else UrlResponse 200 (Inr ''mp4'')),
      writable = (\<lambda>path. True),
      get_file_size = (\<lambda>path. ''3.0 B'')\<rparr>"

definition three_urls :: "string list" where
  "three_urls = [''https://v.example.com/1.mp4'', ''https://v.example.com/2.mp4'',
                 ''https://v.example.com/3.mp4'']"

definition fresh_state :: download_state where
  "fresh_state = \<lparr>successful = 0, failed = 0, video_files = [], disk = Map.empty, log = [],
                   attempts = []\<rparr>"

section \<open>douyin_youtube_tool.py: resolving the files to upload\<close>

text \<open>
  \<open>path_exists\<close> is \<open>os.path.exists\<close>; \<open>current_video_folder\<close> is the attribute of that
  name (\<open>None\<close> until a folder is browsed); \<open>home\<close> is what \<open>os.path.expanduser\<close> puts
  in place of \<open>~\<close>.
\<close>

subsection \<open>\<open>get_full_video_path\<close>\<close>

definition folder_given :: "string option \<Rightarrow> bool" where
  "folder_given current_video_folder =
    (case current_video_folder of None \<Rightarrow> False | Some folder \<Rightarrow> folder \<noteq> [])"

definition get_full_video_path ::
  "(string \<Rightarrow> bool) \<Rightarrow> string option \<Rightarrow> string \<Rightarrow> string \<Rightarrow> string option" where
  "get_full_video_path path_exists current_video_folder download_folder file_name =
    (if folder_given current_video_folder \<and>
        path_exists (path_join (the current_video_folder) file_name)
     then Some (path_join (the current_video_folder) file_name)
     else if path_exists (path_join download_folder file_name)
     then Some (path_join download_folder file_name)
     else if isabs file_name \<and> path_exists file_name then Some file_name
     else None)"

subsection \<open>The selection loops of \<open>upload_selected_videos\<close> and \<open>upload_as_shorts_thread\<close>\<close>

text \<open>
  Both loops keep the path in a variable \<open>file_path\<close> that starts as \<open>None\<close>, and test it
  with \<open>not file_path\<close>, which is also true of an empty string.
\<close>

definition not_set :: "string option \<Rightarrow> bool" where
  "not_set file_path = (case file_path of None \<Rightarrow> True | Some p \<Rightarrow> p = [])"

text \<open>One candidate in \<open>upload_selected_videos\<close>: the value of \<open>file_path\<close> before the
  final \<open>if file_path:\<close>.\<close>

definition selected_file_path ::
  "(string \<Rightarrow> bool) \<Rightarrow> string option \<Rightarrow> string \<Rightarrow> string \<Rightarrow> string option" where
  "selected_file_path path_exists current_video_folder download_folder file_name =
    (let file_path = None;
         file_path =
           (if folder_given current_video_folder then
              (let test_path = path_join (the current_video_folder) file_name
               in if path_exists test_path then Some test_path else file_path)
            else file_path);
         file_path =
           (if not_set file_path then
              (let test_path = path_join download_folder file_name
               in if path_exists test_path then Some test_path else file_path)
            else file_path);
         file_path =
           (if not_set file_path \<and> isabs file_name then
              (if path_exists file_name then Some file_name else file_path)
            else file_path)
     in file_path)"

text \<open>The \<open>for folder in [...]\<close> loop of the Shorts variant, with its \<open>break\<close>.\<close>

fun try_folders :: "(string \<Rightarrow> bool) \<Rightarrow> string list \<Rightarrow> string \<Rightarrow> string option \<Rightarrow> string option" where
  "try_folders path_exists [] file_name file_path = file_path"
| "try_folders path_exists (folder # rest) file_name file_path =
     (let test_path = path_join folder file_name
      in if path_exists test_path then Some test_path
         else try_folders path_exists rest file_name file_path)"

definition well_known_folders :: "string \<Rightarrow> string list" where
  "well_known_folders home = [home @ ''/Downloads'', home @ ''/Videos'', ''.'']"

text \<open>One candidate in \<open>upload_as_shorts_thread\<close>.\<close>

definition shorts_file_path ::
  "(string \<Rightarrow> bool) \<Rightarrow> string \<Rightarrow> string option \<Rightarrow> string \<Rightarrow> string \<Rightarrow> string option" where
  "shorts_file_path path_exists home current_video_folder download_folder file_name =
    (let file_path = None;
         file_path =
           (if folder_given current_video_folder \<and> path_exists (the current_video_folder) then
              (let test_path = path_join (the current_video_folder) file_name
               in if path_exists test_path then Some test_path else file_path)
            else file_path);
         file_path =
           (if not_set file_path then
              (let test_path = path_join download_folder file_name
               in if path_exists test_path then Some test_path else file_path)
            else file_path);
         file_path =
           (if not_set file_path then
              try_folders path_exists (well_known_folders home) file_name file_path
            else file_path)
     in file_path)"

text \<open>
  A row of the upload list: its id, whether its first column is the check mark, and the
  file name in its second column. The log lines of the two loops.
\<close>

record upload_row =
  row_item :: nat
  row_selected :: bool
  row_file_name :: string

datatype upload_log =
    LogFileNotFound string
  | LogFoundForShorts string
  | LogFileNotFoundForShorts string

text \<open>
  The loop \<open>for item in self.upload_tree.get_children()\<close> of \<open>upload_selected_videos\<close>:
  \<open>selected_files\<close> and the log lines, in order.
\<close>

fun upload_selected_files ::
  "(string \<Rightarrow> bool) \<Rightarrow> string option \<Rightarrow> string \<Rightarrow> upload_row list \<Rightarrow>
   (nat \<times> string \<times> string) list \<times> upload_log list \<Rightarrow>
   (nat \<times> string \<times> string) list \<times> upload_log list" where
  "upload_selected_files path_exists current_video_folder download_folder [] acc = acc"
| "upload_selected_files path_exists current_video_folder download_folder (row # rows)
     (selected_files, lg) =
    (if row_selected row then
       (let file_name = row_file_name row;
            file_path = selected_file_path path_exists current_video_folder download_folder
                          file_name
        in if \<not> not_set file_path then
             upload_selected_files path_exists current_video_folder download_folder rows
               (selected_files @ [(row_item row, the file_path, file_name)], lg)
           else
             upload_selected_files path_exists current_video_folder download_folder rows
               (selected_files, lg @ [LogFileNotFound file_name]))
     else upload_selected_files path_exists current_video_folder download_folder rows
            (selected_files, lg))"

text \<open>The same loop in \<open>upload_as_shorts_thread\<close>.\<close>

fun shorts_selected_files ::
  "(string \<Rightarrow> bool) \<Rightarrow> string \<Rightarrow> string option \<Rightarrow> string \<Rightarrow> upload_row list \<Rightarrow>
   string list \<times> upload_log list \<Rightarrow> string list \<times> upload_log list" where
  "shorts_selected_files path_exists home current_video_folder download_folder [] acc = acc"
| "shorts_selected_files path_exists home current_video_folder download_folder (row # rows)
     (selected_files, lg) =
    (if row_selected row then
       (let file_name = row_file_name row;
            file_path = shorts_file_path path_exists home current_video_folder download_folder
                          file_name
        in if \<not> not_set file_path then
             shorts_selected_files path_exists home current_video_folder download_folder rows
               (selected_files @ [the file_path], lg @ [LogFoundForShorts (the file_path)])
           else
             shorts_selected_files path_exists home current_video_folder download_folder rows
               (selected_files, lg @ [LogFileNotFoundForShorts file_name]))
     else shorts_selected_files path_exists home current_video_folder download_folder rows
            (selected_files, lg))"

subsection \<open>The orders of resolution, as lists of candidate paths\<close>

text \<open>
  The order the specification gives: the chosen folder, the download folder, the
  well-known user folders, the name as an absolute path.
\<close>

definition claimed_candidates :: "string \<Rightarrow> string option \<Rightarrow> string \<Rightarrow> string \<Rightarrow> string list" where
  "claimed_candidates home current_video_folder download_folder file_name =
    (if folder_given current_video_folder
     then [path_join (the current_video_folder) file_name] else [])
    @ [path_join download_folder file_name]
    @ map (\<lambda>folder. path_join folder file_name) (well_known_folders home)
    @ (if isabs file_name then [file_name] else [])"

text \<open>The order without the well-known folders, and the order without the absolute
  path (the chosen folder is tried only if it exists itself).\<close>

definition folders_then_absolute :: "string option \<Rightarrow> string \<Rightarrow> string \<Rightarrow> string list" where
  "folders_then_absolute current_video_folder download_folder file_name =
    (if folder_given current_video_folder
     then [path_join (the current_video_folder) file_name] else [])
    @ [path_join download_folder file_name]
    @ (if isabs file_name then [file_name] else [])"

definition folders_then_well_known ::
  "(string \<Rightarrow> bool) \<Rightarrow> string \<Rightarrow> string option \<Rightarrow> string \<Rightarrow> string \<Rightarrow> string list" where
  "folders_then_well_known path_exists home current_video_folder download_folder file_name =
    (if folder_given current_video_folder \<and> path_exists (the current_video_folder)
     then [path_join (the current_video_folder) file_name] else [])
    @ [path_join download_folder file_name]
    @ map (\<lambda>folder. path_join folder file_name) (well_known_folders home)"

text \<open>A disk whose only video lies in the user's Downloads folder.\<close>

definition only_in_downloads :: "string \<Rightarrow> bool" where
  "only_in_downloads path = (path \<in> {''/home/u'', ''/home/u/Downloads'',
     ''/home/u/Downloads/Douyin'', ''/home/u/Downloads/clip.mp4''})"

definition two_rows :: "upload_row list" where
  "two_rows = [\<lparr>row_item = 1, row_selected = True, row_file_name = ''clip.mp4''\<rparr>,
               \<lparr>row_item = 2, row_selected = True, row_file_name = ''gone.mp4''\<rparr>]"

section \<open>The status reporter: today's uploads\<close>

subsection \<open>\<open>YouTubeUploader.check_video_status\<close> and \<open>get_todays_uploads\<close>\<close>

text \<open>
  Instants are microseconds since the epoch, in UTC. \<open>today_start\<close> and \<open>today_end\<close> are
  \<open>now\<close> with the time of day replaced by 00:00:00.000000 and by 23:59:59.999999.
\<close>

definition day_us :: int where
  "day_us = 86400 * 1000000"

definition today_start :: "int \<Rightarrow> int" where
  "today_start now = now - now mod day_us"

definition today_end :: "int \<Rightarrow> int" where
  "today_end now = today_start now + day_us - 1"

text \<open>
  An entry of the uploads playlist as the loop reads it: \<open>item['contentDetails']['videoId']\<close>
  and \<open>item['snippet']['publishedAt']\<close>, each \<open>None\<close> when the key is missing (the read
  raises \<open>KeyError\<close>).
\<close>

record playlist_item =
  pi_video_id :: "string option"
  pi_published_at :: "string option"

text \<open>The fields of \<open>check_video_status\<close>'s result that \<open>get_todays_uploads\<close> copies.\<close>

record video_status =
  vs_title :: string
  vs_privacy_status :: string
  vs_upload_status :: string
  vs_processing_status :: string
  vs_duration :: string
  vs_failure_reason :: "string option"
  vs_rejection_reason :: "string option"

text \<open>
  The remote service as \<open>get_todays_uploads\<close> uses it. \<open>Inl e\<close> is a call that raises
  (\<open>str(e)\<close>), also when a key read from its response is missing.
  \<^item> \<open>channels_mine\<close>: the channels of \<open>channels().list(mine=True)\<close>, each with its title and
    the id of its uploads playlist;
  \<^item> \<open>playlist_items pid n\<close>: the items of \<open>playlistItems().list(playlistId=pid,
    maxResults=n)\<close>;
  \<^item> \<open>video_details vid\<close>: the first item of \<open>videos().list(id=vid)\<close>, \<open>Inr None\<close> when
    there is none;
  \<^item> \<open>fromisoformat s\<close>: the instant of an aware \<open>datetime.fromisoformat(s)\<close>; \<open>None\<close>
    when it raises or yields a naive datetime, whose comparison with \<open>today_start\<close> raises.
\<close>

record uploader_env =
  authenticated :: bool
  channels_mine :: "string + (string \<times> string) list"
  playlist_items :: "string \<Rightarrow> nat \<Rightarrow> string + playlist_item list"
  video_details :: "string \<Rightarrow> string + video_status option"
  fromisoformat :: "string \<Rightarrow> int option"

text \<open>\<open>check_video_status\<close>: \<open>None\<close> is a result with \<open>'success': False\<close>; it never raises.\<close>

definition check_video_status :: "uploader_env \<Rightarrow> string \<Rightarrow> video_status option" where
  "check_video_status env vid =
    (if \<not> authenticated env then None
     else case video_details env vid of Inl e \<Rightarrow> None | Inr v \<Rightarrow> v)"

text \<open>An entry of the \<open>videos\<close> list in the result.\<close>

record todays_video =
  tv_video_id :: string
  tv_status :: video_status
  tv_published_at :: string
  tv_url :: string

text \<open>
  The state of the loop over the page: \<open>todays_videos\<close>, \<open>total_checked\<close>, and the ids
  \<open>check_video_status\<close> was called with, in order.
\<close>

record todays_state =
  todays_videos :: "todays_video list"
  total_checked :: nat
  resolved :: "string list"

text \<open>
  The \<open>for item in playlist_response['items']\<close> loop. \<open>Inl\<close> is a \<open>KeyError\<close> that leaves
  the loop for the outer \<open>except\<close>; the state reached is kept with it.
\<close>

fun todays_loop ::
  "uploader_env \<Rightarrow> int \<Rightarrow> playlist_item list \<Rightarrow> todays_state \<Rightarrow>
   string \<times> todays_state + todays_state" where
  "todays_loop env now [] st = Inr st"
| "todays_loop env now (item # rest) st =
    (let st = st\<lparr>total_checked := total_checked st + 1\<rparr> in
     case pi_video_id item of
       None \<Rightarrow> Inl (''videoId'', st)
     | Some vid \<Rightarrow>
         (case pi_published_at item of
            None \<Rightarrow> Inl (''publishedAt'', st)
          | Some published_at_str \<Rightarrow>
              (case fromisoformat env (py_replace ''Z'' ''+00:00'' published_at_str) of
                 None \<Rightarrow> todays_loop env now rest st
               | Some published_at \<Rightarrow>
                   if today_start now \<le> published_at \<and> published_at \<le> today_end now then
                     (let video_info = check_video_status env vid;
                          st = st\<lparr>resolved := resolved st @ [vid]\<rparr>
                      in case video_info of
                           Some info \<Rightarrow>
                             todays_loop env now rest
                               (st\<lparr>todays_videos := todays_videos st @
                                    [\<lparr>tv_video_id = vid, tv_status = info,
                                      tv_published_at = published_at_str,
                                      tv_url = ''https://www.youtube.com/watch?v='' @ vid\<rparr>]\<rparr>)
                         | None \<Rightarrow> todays_loop env now rest st)
                   else if published_at < today_start now then Inr st
                   else todays_loop env now rest st)))"

text \<open>The returned dict, and with it the state the loop reached.\<close>

datatype todays_result =
    TodaysFailure string
  | TodaysSuccess string "todays_video list" nat nat

definition get_todays_uploads :: "uploader_env \<Rightarrow> int \<Rightarrow> todays_result \<times> todays_state" where
  "get_todays_uploads env now =
    (let st0 = \<lparr>todays_videos = [], total_checked = 0, resolved = []\<rparr> in
     if \<not> authenticated env then (TodaysFailure ''Not authenticated'', st0)
     else
       (case channels_mine env of
          Inl e \<Rightarrow> (TodaysFailure (''Failed to get today'' @ [CHR 0x27] @ ''s uploads: '' @ e), st0)
        | Inr [] \<Rightarrow> (TodaysFailure ''No channel found'', st0)
        | Inr ((channel_title, uploads_playlist_id) # _) \<Rightarrow>
            (case playlist_items env uploads_playlist_id 50 of
               Inl e \<Rightarrow>
                 (TodaysFailure (''Failed to get today'' @ [CHR 0x27] @ ''s uploads: '' @ e), st0)
             | Inr items \<Rightarrow>
                 (case todays_loop env now items st0 of
                    Inl (e, st) \<Rightarrow>
                      (TodaysFailure
                         (''Failed to get today'' @ [CHR 0x27] @ ''s uploads: '' @ e), st)
                  | Inr st \<Rightarrow>
                      (TodaysSuccess channel_title (todays_videos st)
                         (length (todays_videos st)) (total_checked st), st)))))"

subsection \<open>\<open>YouTubeAPI.get_todays_uploads\<close>\<close>

text \<open>\<open>a >= b\<close> on two Python strings: the order of the first differing characters,
  a proper prefix being smaller.\<close>

fun str_ge :: "string \<Rightarrow> string \<Rightarrow> bool" where
  "str_ge a [] = True"
| "str_ge [] (y # ys) = False"
| "str_ge (x # xs) (y # ys) =
     (if x = y then str_ge xs ys else (of_char y :: nat) < of_char x)"

text \<open>
  A playlist entry as this variant reads it: \<open>item['snippet']['publishedAt']\<close> and
  \<open>item['snippet']['resourceId']['videoId']\<close>.
\<close>

record api_item =
  ai_published_at :: "string option"
  ai_video_id :: "string option"

text \<open>An entry of the returned list (\<open>id\<close>, \<open>publishedAt\<close>, \<open>status\<close>; the title and the
  three counters are left out).\<close>

record api_video =
  av_id :: string
  av_published_at :: string
  av_status :: string

datatype api_service = NoService | DemoService | RealService

text \<open>
  The object and the remote service as this variant uses them: \<open>api_today\<close> is
  \<open>datetime.now(timezone.utc).strftime('%Y-%m-%dT00:00:00Z')\<close>; \<open>api_uploads\<close> is the uploads
  playlist id of the first channel (\<open>Inr None\<close>: no channel); \<open>api_search today n\<close> the video
  ids of \<open>search().list(publishedAfter=today, maxResults=n)\<close>; \<open>api_videos ids\<close> the
  entries built from \<open>videos().list(id=','.join(ids))\<close>. \<open>Inl\<close> is a call or a read of its
  response that raises.
\<close>

record api_env =
  api_authenticated :: bool
  api_service :: api_service
  api_credentials :: bool
  api_today :: string
  api_uploads :: "string + string option"
  api_playlist_items :: "string \<Rightarrow> nat \<Rightarrow> string + api_item list"
  api_search :: "string \<Rightarrow> nat \<Rightarrow> string + string list"
  api_videos :: "string list \<Rightarrow> string + api_video list"

text \<open>
  The filter loop \<open>for item in response.get('items', [])\<close>: the ids collected and the
  number of entries the loop has read, or \<open>None\<close> when a key is missing. There is no
  \<open>break\<close> in it.
\<close>

fun filter_todays_ids ::
  "string \<Rightarrow> api_item list \<Rightarrow> string list \<times> nat \<Rightarrow> (string list \<times> nat) option" where
  "filter_todays_ids today [] acc = Some acc"
| "filter_todays_ids today (item # rest) (video_ids, inspected) =
    (case ai_published_at item of
       None \<Rightarrow> None
     | Some pub_date \<Rightarrow>
         if str_ge pub_date today then
           (case ai_video_id item of
              None \<Rightarrow> None
            | Some vid \<Rightarrow> filter_todays_ids today rest (video_ids @ [vid], inspected + 1))
         else filter_todays_ids today rest (video_ids, inspected + 1))"

definition demo_videos :: "api_video list" where
  "demo_videos =
     [\<lparr>av_id = ''demo_video_1'', av_published_at = ''2025-08-21T10:00:00Z'', av_status = ''public''\<rparr>,
      \<lparr>av_id = ''demo_video_2'', av_published_at = ''2025-08-21T14:30:00Z'', av_status = ''public''\<rparr>]"

text \<open>
  The result of one call: the returned list, the ids passed to \<open>videos().list\<close> (\<open>None\<close>:
  it was not called), and how many playlist entries the filter loop read.
\<close>

record api_run =
  api_returned :: "api_video list"
  api_requested :: "string list option"
  api_inspected :: nat

text \<open>\<open>YouTubeAPI.get_todays_uploads\<close>. Every exception ends in \<open>return []\<close>.\<close>

definition api_get_todays_uploads :: "api_env \<Rightarrow> api_run" where
  "api_get_todays_uploads env =
    (let nothing = \<lparr>api_returned = [], api_requested = None, api_inspected = 0\<rparr> in
     if \<not> api_authenticated env \<or> api_service env = NoService then nothing
     else if api_service env = DemoService then nothing\<lparr>api_returned := demo_videos\<rparr>
     else if api_credentials env then
       (case api_uploads env of
          Inl e \<Rightarrow> nothing
        | Inr None \<Rightarrow> nothing
        | Inr (Some uploads_playlist_id) \<Rightarrow>
            (case api_playlist_items env uploads_playlist_id 50 of
               Inl e \<Rightarrow> nothing
             | Inr items \<Rightarrow>
                 (case filter_todays_ids (api_today env) items ([], 0) of
                    None \<Rightarrow> nothing
                  | Some (video_ids, inspected) \<Rightarrow>
                      if video_ids \<noteq> [] then
                        (case api_videos env video_ids of
                           Inl e \<Rightarrow>
                             \<lparr>api_returned = [], api_requested = Some video_ids,
                              api_inspected = inspected\<rparr>
                         | Inr videos \<Rightarrow>
                             \<lparr>api_returned = videos, api_requested = Some video_ids,
                              api_inspected = inspected\<rparr>)
                      else nothing\<lparr>api_inspected := inspected\<rparr>)))
     else
       (case api_search env (api_today env) 10 of
          Inl e \<Rightarrow> nothing
        | Inr video_ids \<Rightarrow>
            if video_ids \<noteq> [] then
              (case api_videos env video_ids of
                 Inl e \<Rightarrow> nothing\<lparr>api_requested := Some video_ids\<rparr>
               | Inr videos \<Rightarrow> nothing\<lparr>api_returned := videos, api_requested := Some video_ids\<rparr>)
            else nothing))"

subsection \<open>Vocabulary and concrete pages\<close>

text \<open>The instant a playlist entry was published, when the loop can read and parse it.\<close>

definition published_instant :: "uploader_env \<Rightarrow> playlist_item \<Rightarrow> int option" where
  "published_instant env item =
    (case pi_published_at item of
       None \<Rightarrow> None
     | Some s \<Rightarrow> fromisoformat env (py_replace ''Z'' ''+00:00'' s))"

text \<open>An entry published within the current UTC day, and one published before it.\<close>

definition in_today :: "uploader_env \<Rightarrow> int \<Rightarrow> playlist_item \<Rightarrow> bool" where
  "in_today env now item =
    (case published_instant env item of
       None \<Rightarrow> False
     | Some t \<Rightarrow> today_start now \<le> t \<and> t \<le> today_end now)"

definition is_older :: "uploader_env \<Rightarrow> int \<Rightarrow> playlist_item \<Rightarrow> bool" where
  "is_older env now item =
    (case published_instant env item of None \<Rightarrow> False | Some t \<Rightarrow> t < today_start now)"

text \<open>The entries in front of the first one published before today.\<close>

definition before_first_older :: "uploader_env \<Rightarrow> int \<Rightarrow> playlist_item list \<Rightarrow> playlist_item list" where
  "before_first_older env now items = takeWhile (\<lambda>item. \<not> is_older env now item) items"

definition has_both_keys :: "playlist_item \<Rightarrow> bool" where
  "has_both_keys item = (pi_video_id item \<noteq> None \<and> pi_published_at item \<noteq> None)"

definition loop_state :: "string \<times> todays_state + todays_state \<Rightarrow> todays_state" where
  "loop_state r = (case r of Inl (e, st) \<Rightarrow> st | Inr st \<Rightarrow> st)"

text \<open>
  A day's clock in which \<open>fromisoformat\<close> knows three stamps: two of today
  (2025-08-21, the day that starts at 1755734400 seconds) and one of the day before.
\<close>

definition stamp :: "string \<Rightarrow> int option" where
  "stamp s =
    (if s = ''2025-08-21T10:00:00+00:00'' then Some (1755770400 * 1000000)
     else if s = ''2025-08-21T08:00:00+00:00'' then Some (1755763200 * 1000000)
     else if s = ''2025-08-20T23:00:00+00:00'' then Some (1755730800 * 1000000)
     else None)"

definition noon :: int where
  "noon = 1755777600 * 1000000"

definition plain_status :: video_status where
  "plain_status =
     \<lparr>vs_title = ''clip'', vs_privacy_status = ''private'', vs_upload_status = ''processed'',
      vs_processing_status = ''succeeded'', vs_duration = ''PT15S'',
      vs_failure_reason = None, vs_rejection_reason = None\<rparr>"

definition entry :: "string \<Rightarrow> string \<Rightarrow> playlist_item" where
  "entry vid published = \<lparr>pi_video_id = Some vid, pi_published_at = Some published\<rparr>"

text \<open>A page, newest first: two entries of today, then two of yesterday.\<close>

definition sample_page :: "playlist_item list" where
  "sample_page =
     [entry ''v1'' ''2025-08-21T10:00:00Z'', entry ''v2'' ''2025-08-21T08:00:00Z'',
      entry ''v3'' ''2025-08-20T23:00:00Z'', entry ''v4'' ''2025-08-20T23:00:00Z'']"

definition sample_uploader :: uploader_env where
  "sample_uploader =
     \<lparr>authenticated = True,
      channels_mine = Inr [(''My channel'', ''UU1'')],
      playlist_items = (\<lambda>pid n. Inr (take n sample_page)),
      video_details = (\<lambda>vid. Inr (Some plain_status)),
      fromisoformat = stamp\<rparr>"

text \<open>The other variant's page, newest first: an entry of today, then two of yesterday.\<close>

definition api_page :: "api_item list" where
  "api_page =
     [\<lparr>ai_published_at = Some ''2025-08-21T10:00:00Z'', ai_video_id = Some ''new''\<rparr>,
      \<lparr>ai_published_at = Some ''2025-08-20T23:00:00Z'', ai_video_id = Some ''old1''\<rparr>,
      \<lparr>ai_published_at = Some ''2025-08-20T22:00:00Z'', ai_video_id = Some ''old2''\<rparr>]"

definition sample_api :: api_env where
  "sample_api =
     \<lparr>api_authenticated = True, api_service = RealService, api_credentials = True,
      api_today = ''2025-08-21T00:00:00Z'',
      api_uploads = Inr (Some ''UU1''),
      api_playlist_items = (\<lambda>pid n. Inr (take n api_page)),
      api_search = (\<lambda>today n. Inr []),
      api_videos = (\<lambda>ids. Inr (map (\<lambda>vid. \<lparr>av_id = vid,
                       av_published_at = ''2025-08-21T10:00:00Z'', av_status = ''public''\<rparr>) ids))\<rparr>"

text \<open>
  What a walk over \<open>items\<close> from state \<open>st\<close> to state \<open>st'\<close> must satisfy: it inspected no
  more than the page and no more than one entry past those in front of the first older
  one, and each id it resolved belongs to an entry of today in front of the first older one.
\<close>

definition walk_ok ::
  "uploader_env \<Rightarrow> int \<Rightarrow> playlist_item list \<Rightarrow> todays_state \<Rightarrow> todays_state \<Rightarrow> bool" where
  "walk_ok env now items st st' =
    (total_checked st' \<le> total_checked st + length items \<and>
     total_checked st' \<le> total_checked st + Suc (length (before_first_older env now items)) \<and>
     (\<exists>new. resolved st' = resolved st @ new \<and>
        (\<forall>vid \<in> set new. \<exists>item \<in> set (before_first_older env now items).
            pi_video_id item = Some vid \<and> in_today env now item)))"

section \<open>douyin_youtube_tool.py: the cURL parser\<close>

subsection \<open>The three regular expressions\<close>

text \<open>
  The patterns of \<open>parse_curl\<close> have one way to match at a given position, so each is
  written as the function that matches at the start of a text; \<open>re.search\<close> tries the
  positions from the left, \<open>re.findall\<close> goes on behind each match.
\<close>

definition is_quote :: "char \<Rightarrow> bool" where
  "is_quote c = (c = CHR 0x27 \<or> c = CHR 0x22)"

text \<open>
  \<open>PREFIX['"]([^'"]+)['"]\<close> at the start of \<open>text\<close> (the source uses it with the prefixes
  \<open>curl\<close> and \<open>-b\<close>, each followed by a space): the group is the longest run without a
  quote behind the opening quote; it must not be empty and a quote must follow it.
\<close>

definition match_quoted :: "string \<Rightarrow> string \<Rightarrow> string option" where
  "match_quoted prefix text =
    (if startswith text prefix then
       (case drop (length prefix) text of
          [] \<Rightarrow> None
        | q # rest \<Rightarrow>
            if is_quote q then
              (let run = takeWhile (\<lambda>c. \<not> is_quote c) rest
               in if run \<noteq> [] \<and> length run < length rest then Some run else None)
            else None)
     else None)"

fun search_quoted :: "string \<Rightarrow> string \<Rightarrow> string option" where
  "search_quoted prefix [] = None"
| "search_quoted prefix (c # cs) =
     (case match_quoted prefix (c # cs) of
        Some g \<Rightarrow> Some g
      | None \<Rightarrow> search_quoted prefix cs)"

text \<open>\<open>curl ([^\s]+)\<close>: the longest run without white space behind \<open>curl\<close> and a space.\<close>

definition match_unquoted :: "string \<Rightarrow> string option" where
  "match_unquoted text =
    (if startswith text ''curl '' then
       (let run = takeWhile (\<lambda>c. \<not> py_isspace c) (drop 5 text)
        in if run \<noteq> [] then Some run else None)
     else None)"

fun search_unquoted :: "string \<Rightarrow> string option" where
  "search_unquoted [] = None"
| "search_unquoted (c # cs) =
     (case match_unquoted (c # cs) of
        Some g \<Rightarrow> Some g
      | None \<Rightarrow> search_unquoted cs)"

text \<open>
  \<open>-H ['"]([^:]+):\s*([^'"]+)['"]\<close> at the start of \<open>text\<close>: the two groups and the
  length of the match. The name is the longest run without a colon (quotes and line breaks
  may be in it) and a colon must follow; behind the colon the longest run without a quote
  must not be empty and a quote must follow; the value is that run without its leading
  white space, or its last character when it is white space only.
\<close>

definition match_header :: "string \<Rightarrow> ((string \<times> string) \<times> nat) option" where
  "match_header text =
    (if startswith text ''-H '' then
       (case drop 3 text of
          [] \<Rightarrow> None
        | q # rest \<Rightarrow>
            if is_quote q then
              (let name = takeWhile (\<lambda>c. c \<noteq> CHR '':'') rest in
               if name \<noteq> [] \<and> length name < length rest then
                 (let r = drop (length name + 1) rest;
                      run = takeWhile (\<lambda>c. \<not> is_quote c) r;
                      ws = takeWhile py_isspace run
                  in if run \<noteq> [] \<and> length run < length r then
                       Some ((name,
                              if length ws < length run then drop (length ws) run
                              else [last run]),
                             3 + 1 + length name + 1 + length run + 1)
                     else None)
               else None)
            else None)
     else None)"

fun findall_headers :: "string \<Rightarrow> (string \<times> string) list" where
  "findall_headers [] = []"
| "findall_headers (c # cs) =
     (case match_header (c # cs) of
        Some (kv, n) \<Rightarrow> kv # findall_headers (drop (n - 1) cs)
      | None \<Rightarrow> findall_headers cs)"

subsection \<open>\<open>parse_curl\<close>\<close>

text \<open>\<open>headers[name] = value\<close> on a dict kept in insertion order.\<close>

fun dict_set :: "(string \<times> string) list \<Rightarrow> string \<Rightarrow> string \<Rightarrow> (string \<times> string) list" where
  "dict_set [] k v = [(k, v)]"
| "dict_set ((k', v') # d) k v =
     (if k' = k then (k, v) # d else (k', v') # dict_set d k v)"

text \<open>The loop \<open>for header_name, header_value in header_matches\<close>.\<close>

fun set_headers :: "(string \<times> string) list \<Rightarrow> (string \<times> string) list \<Rightarrow> (string \<times> string) list" where
  "set_headers headers [] = headers"
| "set_headers headers ((header_name, header_value) # rest) =
     set_headers (dict_set headers header_name header_value) rest"

text \<open>
  What \<open>parse_curl\<close> leaves behind: the URL it puts into \<open>url_var\<close> (\<open>None\<close>: it leaves
  the field as it was) and the \<open>headers\<close> dict.
\<close>

record curl_parse =
  parsed_url :: "string option"
  parsed_headers :: "(string \<times> string) list"

text \<open>\<open>parse_curl\<close> on the content of the text field; \<open>None\<close> is the return after the
  error dialog for an empty field.\<close>

definition parse_curl :: "string \<Rightarrow> curl_parse option" where
  "parse_curl field =
    (let curl_text = strip field in
     if curl_text = [] then None
     else
       (let url_match =
              (case search_quoted ''curl '' curl_text of
                 Some g \<Rightarrow> Some g
               | None \<Rightarrow> search_unquoted curl_text);
            headers = set_headers [] (findall_headers curl_text);
            headers =
              (case search_quoted ''-b '' curl_text of
                 Some cookie_string \<Rightarrow> dict_set headers ''Cookie'' cookie_string
               | None \<Rightarrow> headers)
        in Some \<lparr>parsed_url = url_match, parsed_headers = headers\<rparr>))"

subsection \<open>Commands as the claim describes them\<close>

text \<open>
  A command made of a quoted URL, \<open>-H\<close> flags and an optional trailing \<open>-b\<close> flag, all
  with the same quote character.
\<close>

definition header_flag :: "char \<Rightarrow> string \<times> string \<Rightarrow> string" where
  "header_flag q kv = '' -H '' @ [q] @ fst kv @ '': '' @ snd kv @ [q]"

definition cookie_flag :: "char \<Rightarrow> string option \<Rightarrow> string" where
  "cookie_flag q cookie = (case cookie of None \<Rightarrow> [] | Some c \<Rightarrow> '' -b '' @ [q] @ c @ [q])"

definition curl_command :: "char \<Rightarrow> string \<Rightarrow> (string \<times> string) list \<Rightarrow> string option \<Rightarrow> string" where
  "curl_command q u hdrs cookie =
     ''curl '' @ [q] @ u @ [q] @ concat (map (header_flag q) hdrs) @ cookie_flag q cookie"

text \<open>
  The parts such a command is made of: a URL without quotes and blanks; a header name
  without colons and quotes; a value and a cookie string without quotes that do not start
  with white space and do not end with a blank.
\<close>

definition plain_text :: "string \<Rightarrow> bool" where
  "plain_text s =
    (s \<noteq> [] \<and> (\<forall>c \<in> set s. \<not> is_quote c) \<and> \<not> py_isspace (hd s) \<and> last s \<noteq> CHR '' '')"

definition url_text :: "string \<Rightarrow> bool" where
  "url_text s = (s \<noteq> [] \<and> (\<forall>c \<in> set s. \<not> is_quote c \<and> c \<noteq> CHR '' ''))"

definition header_name_text :: "string \<Rightarrow> bool" where
  "header_name_text s = (s \<noteq> [] \<and> (\<forall>c \<in> set s. \<not> is_quote c \<and> c \<noteq> CHR '':''))"

definition wf_command :: "char \<Rightarrow> string \<Rightarrow> (string \<times> string) list \<Rightarrow> string option \<Rightarrow> bool" where
  "wf_command q u hdrs cookie =
    (is_quote q \<and> url_text u \<and>
     (\<forall>kv \<in> set hdrs. header_name_text (fst kv) \<and> plain_text (snd kv)) \<and>
     (case cookie of None \<Rightarrow> True | Some c \<Rightarrow> plain_text c))"

text \<open>A command with the header \<open>Accept\<close> twice, and one with a cookie header and a
  \<open>-b\<close> flag.\<close>

definition accept_twice :: string where
  "accept_twice =
     curl_command (CHR 0x27) ''https://www.douyin.com/aweme/v1/web/aweme/post/?sec_user_id=ABC''
       [(''Accept'', ''text/html''), (''Accept'', ''application/json'')] None"

definition cookie_twice :: string where
  "cookie_twice =
     curl_command (CHR 0x22) ''https://www.douyin.com/aweme/v1/web/aweme/post/?sec_user_id=ABC''
       [(''Cookie'', ''a=1''), (''Authorization'', ''Bearer xyz'')] (Some ''b=2; c=3'')"

definition bearer_and_cookie :: string where
  "bearer_and_cookie =
     curl_command (CHR 0x27) ''https://www.douyin.com/aweme/v1/web/aweme/post/?sec_user_id=ABC''
       [(''Authorization'', ''Bearer xyz'')] (Some ''b=2; c=3'')"

text \<open>The flags of a command as pairs: the \<open>-H\<close> flags in order, then the cookie of a
  \<open>-b\<close> flag under the name \<open>Cookie\<close>.\<close>

definition command_flags :: "(string \<times> string) list \<Rightarrow> string option \<Rightarrow> (string \<times> string) list" where
  "command_flags hdrs cookie =
     hdrs @ (case cookie of None \<Rightarrow> [] | Some c \<Rightarrow> [(''Cookie'', c)])"

section \<open>Verified properties\<close>

subsection \<open>Unfolding the retry loop\<close>

lemma upload_loop_progress:
  "next_chunk n = Progress \<Longrightarrow>
   upload_loop next_chunk vlist (n, retry, sl) = upload_loop next_chunk vlist (Suc n, retry, sl)"
  by (subst upload_loop.simps) (simp add: upload_step_def)

lemma upload_loop_retry:
  "next_chunk n = RaisesHttpError status e \<Longrightarrow> retriable status \<Longrightarrow> retry < 5 \<Longrightarrow>
   upload_loop next_chunk vlist (n, retry, sl) =
   upload_loop next_chunk vlist (Suc n, Suc retry, sl @ [2 ^ Suc retry])"
  by (subst upload_loop.simps) (simp add: upload_step_def)

lemma upload_loop_give_up:
  "next_chunk n = RaisesHttpError status e \<Longrightarrow> retriable status \<Longrightarrow> 5 \<le> retry \<Longrightarrow>
   upload_loop next_chunk vlist (n, retry, sl) =
   Some \<lparr>run_result = UploadFailure (''Max retries exceeded: '' @ e),
         run_attempts = Suc n, run_sleeps = sl\<rparr>"
  by (subst upload_loop.simps) (simp add: upload_step_def)

lemma upload_loop_http_error:
  "next_chunk n = RaisesHttpError status e \<Longrightarrow> \<not> retriable status \<Longrightarrow>
   upload_loop next_chunk vlist (n, retry, sl) =
   Some \<lparr>run_result = UploadFailure (''HTTP Error: '' @ e),
         run_attempts = Suc n, run_sleeps = sl\<rparr>"
  by (subst upload_loop.simps) (simp add: upload_step_def)

lemma upload_loop_other:
  "next_chunk n = RaisesOther e \<Longrightarrow>
   upload_loop next_chunk vlist (n, retry, sl) =
   Some \<lparr>run_result = UploadFailure (''Unexpected error: '' @ e),
         run_attempts = Suc n, run_sleeps = sl\<rparr>"
  by (subst upload_loop.simps) (simp add: upload_step_def)

lemma upload_loop_completed:
  "next_chunk n = Completed response \<Longrightarrow>
   upload_loop next_chunk vlist (n, retry, sl) =
   Some \<lparr>run_result = on_response vlist response, run_attempts = Suc n, run_sleeps = sl\<rparr>"
  by (subst upload_loop.simps) (simp add: upload_step_def)


lemma upload_loop_all_progress:
  assumes "upload_loop next_chunk vlist s = Some r"
  shows "\<exists>n. next_chunk n \<noteq> Progress"
proof (rule upload_loop.raw_induct
    [where P = "\<lambda>next_chunk vlist s r. \<exists>n. next_chunk n \<noteq> Progress", OF _ assms])
  fix loop :: "(nat \<Rightarrow> chunk_outcome) \<Rightarrow> (string \<Rightarrow> list_outcome) \<Rightarrow> nat \<times> nat \<times> nat list
     \<Rightarrow> upload_run option"
  fix next_chunk vlist s r
  assume IH: "\<And>next_chunk vlist s r. loop next_chunk vlist s = Some r \<Longrightarrow> \<exists>n. next_chunk n \<noteq> Progress"
    and step: "(case upload_step next_chunk vlist s of Inl r \<Rightarrow> Some r
                | Inr s' \<Rightarrow> loop next_chunk vlist s') = Some r"
  show "\<exists>n. next_chunk n \<noteq> Progress"
  proof (cases "upload_step next_chunk vlist s")
    case (Inl a)
    obtain n retry sl where s: "s = (n, retry, sl)" by (cases s) auto
    have "next_chunk n \<noteq> Progress"
    proof
      assume "next_chunk n = Progress"
      then have "upload_step next_chunk vlist s = Inr (Suc n, retry, sl)"
        by (simp add: upload_step_def s)
      with Inl show False by simp
    qed
    then show ?thesis ..
  next
    case (Inr s')
    with step have "loop next_chunk vlist s' = Some r" by simp
    then show ?thesis by (rule IH)
  qed
qed


lemma retries_before_Suc:
  "retries_before next_chunk (Suc k) =
   retries_before next_chunk k + (if is_retry (next_chunk k) then 1 else 0)"
  by (simp add: retries_before_def)

lemma backoff_Suc: "backoff (Suc m) = backoff m @ [2 ^ Suc m]"
  by (simp add: backoff_def)

lemma is_retry_cases:
  "is_retry out \<Longrightarrow> \<exists>status e. out = RaisesHttpError status e \<and> retriable status"
  by (cases out) (auto simp: is_retry_def)

lemma upload_loop_prefix:
  "(\<forall>i<k. next_chunk i = Progress \<or> is_retry (next_chunk i)) \<Longrightarrow>
   retries_before next_chunk k \<le> 5 \<Longrightarrow>
   upload_loop next_chunk vlist (0, 0, []) =
   upload_loop next_chunk vlist (k, retries_before next_chunk k, backoff (retries_before next_chunk k))"
proof (induction k)
  case 0
  show ?case by (simp add: retries_before_def backoff_def)
next
  case (Suc k)
  let ?m = "retries_before next_chunk k"
  from Suc.prems have pre: "\<forall>i<k. next_chunk i = Progress \<or> is_retry (next_chunk i)" by simp
  from Suc.prems have m5: "?m \<le> 5" by (simp add: retries_before_Suc split: if_splits)
  note IH = Suc.IH [OF pre m5]
  from Suc.prems have "next_chunk k = Progress \<or> is_retry (next_chunk k)" by simp
  then show ?case
  proof
    assume p: "next_chunk k = Progress"
    then have "retries_before next_chunk (Suc k) = ?m"
      by (simp add: retries_before_Suc is_retry_def)
    with IH upload_loop_progress [where next_chunk = next_chunk and n = k, OF p] show ?thesis by simp
  next
    assume r: "is_retry (next_chunk k)"
    then obtain status e where o: "next_chunk k = RaisesHttpError status e" "retriable status"
      using is_retry_cases by blast
    from r have eq: "retries_before next_chunk (Suc k) = Suc ?m"
      by (simp add: retries_before_Suc)
    with Suc.prems have "?m < 5" by simp
    from upload_loop_retry [where next_chunk = next_chunk and n = k, OF o this] IH eq show ?thesis
      by (simp add: backoff_Suc)
  qed
qed

lemma upload_loop_skip:
  "(\<forall>i. n \<le> i \<and> i < n + d \<longrightarrow> next_chunk i = Progress) \<Longrightarrow>
   upload_loop next_chunk vlist (n, retry, sl) = upload_loop next_chunk vlist (n + d, retry, sl)"
proof (induction d arbitrary: n)
  case 0
  show ?case by simp
next
  case (Suc d)
  from Suc.prems have "next_chunk n = Progress" by simp
  from upload_loop_progress [where next_chunk = next_chunk and n = n, OF this]
  have "upload_loop next_chunk vlist (n, retry, sl) = upload_loop next_chunk vlist (Suc n, retry, sl)" .
  also have "\<dots> = upload_loop next_chunk vlist (Suc n + d, retry, sl)"
    using Suc.prems by (intro Suc.IH) auto
  finally show ?case by simp
qed

lemma upload_loop_returns:
  assumes live: "\<forall>n. \<exists>k\<ge>n. next_chunk k \<noteq> Progress"
  shows "\<exists>r. upload_loop next_chunk vlist (n, retry, sl) = Some r"
proof (induction "5 - retry" arbitrary: n retry sl rule: less_induct)
  case less
  define k where "k = (LEAST k. n \<le> k \<and> next_chunk k \<noteq> Progress)"
  from live obtain k0 where "n \<le> k0 \<and> next_chunk k0 \<noteq> Progress" by blast
  then have k: "n \<le> k \<and> next_chunk k \<noteq> Progress"
    unfolding k_def by (rule LeastI)
  have before: "\<forall>i. n \<le> i \<and> i < k \<longrightarrow> next_chunk i = Progress"
  proof (intro allI impI)
    fix i assume i: "n \<le> i \<and> i < k"
    show "next_chunk i = Progress"
    proof (rule ccontr)
      assume "next_chunk i \<noteq> Progress"
      with i have "k \<le> i" unfolding k_def by (intro Least_le) simp
      with i show False by simp
    qed
  qed
  from k have "n + (k - n) = k" by simp
  with upload_loop_skip [of n "k - n" next_chunk vlist retry sl] before
  have skip: "upload_loop next_chunk vlist (n, retry, sl) = upload_loop next_chunk vlist (k, retry, sl)"
    by simp
  show ?case
  proof (cases "next_chunk k")
    case Progress
    with k show ?thesis by simp
  next
    case (Completed response)
    from upload_loop_completed [where next_chunk = next_chunk and n = k, OF this] skip show ?thesis by simp
  next
    case (RaisesHttpError status e)
    show ?thesis
    proof (cases "retriable status")
      case False
      from upload_loop_http_error [where next_chunk = next_chunk and n = k, OF RaisesHttpError this] skip show ?thesis by simp
    next
      case True
      show ?thesis
      proof (cases "retry < 5")
        case False
        then have "5 \<le> retry" by simp
        from upload_loop_give_up [where next_chunk = next_chunk and n = k, OF RaisesHttpError True this] skip show ?thesis by simp
      next
        case lt: True
        then have "5 - Suc retry < 5 - retry" by simp
        from less [OF this] obtain r where
          "upload_loop next_chunk vlist (Suc k, Suc retry, sl @ [2 ^ Suc retry]) = Some r"
          by blast
        with upload_loop_retry [where next_chunk = next_chunk and n = k, OF RaisesHttpError True lt] skip show ?thesis by simp
      qed
    qed
  next
    case (RaisesOther e)
    from upload_loop_other [where next_chunk = next_chunk and n = k, OF this] skip show ?thesis by simp
  qed
qed

lemma always_503_retry: "is_retry (always_503 n)"
  by (simp add: is_retry_def always_503_def retriable_def)

subsection \<open>The pages of one analysis\<close>

lemma process_page_pages: "pages (fst (process_page data st)) = pages st @ [data]"
  by (simp add: process_page_def Let_def split: option.splits json.splits)

lemma process_page_end:
  "end_of_feed data \<Longrightarrow> snd (process_page data st) = None"
  by (auto simp: process_page_def end_of_feed_def Let_def split: option.splits json.splits)

lemma process_page_stop:
  "snd (process_page data st) = None \<Longrightarrow>
   end_of_feed data \<or> analysis_failed (fst (process_page data st))"
  by (auto simp: process_page_def end_of_feed_def Let_def split: option.splits json.splits if_splits)


lemma analyze_loop_pages:
  "\<exists>new. pages (analyze_loop fetch page max_cursor st) = pages st @ new \<and>
         length new \<le> 6 - page \<and>
         (page \<le> 5 \<longrightarrow> new \<noteq> [] \<and> hd new = fetch page max_cursor) \<and>
         (\<forall>i. Suc i < length new \<longrightarrow> \<not> end_of_feed (new ! i)) \<and>
         (length new < 6 - page \<longrightarrow>
            end_of_feed (last new) \<or> analysis_failed (analyze_loop fetch page max_cursor st))"
proof (induction fetch page max_cursor st rule: analyze_loop.induct)
  case (1 fetch page max_cursor st)
  show ?case
  proof (cases "page \<le> 5")
    case False
    then show ?thesis by (simp add: analyze_loop.simps)
  next
    case True
    let ?data = "fetch page max_cursor"
    obtain st' nxt where pp: "process_page ?data st = (st', nxt)"
      by (cases "process_page ?data st") auto
    have pg: "pages st' = pages st @ [?data]"
      using process_page_pages [of ?data st] pp by simp
    show ?thesis
    proof (cases nxt)
      case None
      with pp True have r: "analyze_loop fetch page max_cursor st = st'"
        by (simp add: analyze_loop.simps)
      from process_page_stop [of ?data st] pp None
      have "end_of_feed ?data \<or> analysis_failed st'" by simp
      with r pg True show ?thesis
        by (intro exI [of _ "[?data]"]) simp
    next
      case (Some c)
      with pp True have r: "analyze_loop fetch page max_cursor st = analyze_loop fetch (page + 1) c st'"
        by (simp add: analyze_loop.simps)
      have ne: "\<not> end_of_feed ?data"
        using process_page_end [of ?data st] pp Some by auto
      from "1.IH" [OF True pp [symmetric] Some]
      obtain new where new:
        "pages (analyze_loop fetch (page + 1) c st') = pages st' @ new"
        "length new \<le> 6 - (page + 1)"
        "page + 1 \<le> 5 \<longrightarrow> new \<noteq> [] \<and> hd new = fetch (page + 1) c"
        "\<forall>i. Suc i < length new \<longrightarrow> \<not> end_of_feed (new ! i)"
        "length new < 6 - (page + 1) \<longrightarrow>
            end_of_feed (last new) \<or> analysis_failed (analyze_loop fetch (page + 1) c st')"
        by blast
      have a: "pages (analyze_loop fetch page max_cursor st) = pages st @ (?data # new)"
        using new(1) pg r by simp
      have b: "length (?data # new) \<le> 6 - page" using new(2) True by simp
      have c: "\<forall>i. Suc i < length (?data # new) \<longrightarrow> \<not> end_of_feed ((?data # new) ! i)"
      proof (intro allI impI)
        fix i assume i: "Suc i < length (?data # new)"
        show "\<not> end_of_feed ((?data # new) ! i)"
        proof (cases i)
          case 0 with ne show ?thesis by simp
        next
          case (Suc j)
          with i new(4) show ?thesis by simp
        qed
      qed
      have d: "length (?data # new) < 6 - page \<longrightarrow>
            end_of_feed (last (?data # new)) \<or> analysis_failed (analyze_loop fetch page max_cursor st)"
      proof
        assume l: "length (?data # new) < 6 - page"
        then have "length new < 6 - (page + 1)" by simp
        moreover from l have "page + 1 \<le> 5" by simp
        ultimately show "end_of_feed (last (?data # new)) \<or> analysis_failed (analyze_loop fetch page max_cursor st)"
          using new(3) new(5) r by simp
      qed
      from a b c d show ?thesis
        by (intro exI [of _ "?data # new"]) simp
    qed
  qed
qed

subsection \<open>Counting the downloads\<close>

lemma download_single_video_ok:
  "fst (download_single_video env url (path_join download_folder (video_filename (i + 1))) i st)
     = item_ok env download_folder i url"
  by (simp add: download_single_video_def item_ok_def Let_def split: url_reply.splits sum.splits)

lemma download_single_video_frame:
  "successful (snd (download_single_video env url file_path i st)) = successful st"
  "failed (snd (download_single_video env url file_path i st)) = failed st"
  "attempts (snd (download_single_video env url file_path i st)) = attempts st"
  by (simp_all add: download_single_video_def Let_def split: url_reply.splits sum.splits)

lemma download_loop_counts:
  "attempts (download_loop env download_folder i urls st) =
     attempts st @ map (outcome env download_folder) (zip [i..<i + length urls] urls)
 \<and> successful (download_loop env download_folder i urls st) =
     successful st + length (filter (\<lambda>a. item_ok env download_folder (fst a) (snd a))
                               (zip [i..<i + length urls] urls))
 \<and> failed (download_loop env download_folder i urls st) =
     failed st + length (filter (\<lambda>a. \<not> item_ok env download_folder (fst a) (snd a))
                           (zip [i..<i + length urls] urls))"
proof (induction urls arbitrary: i st)
  case Nil
  show ?case by simp
next
  case (Cons url rest)
  let ?path = "path_join download_folder (video_filename (i + 1))"
  obtain ok st1 where d: "download_single_video env url ?path i st = (ok, st1)"
    by (cases "download_single_video env url ?path i st") auto
  from download_single_video_ok [of env url download_folder i st] d
  have ok: "ok = item_ok env download_folder i url" by simp
  from download_single_video_frame [of env url ?path i st] d
  have fr: "successful st1 = successful st" "failed st1 = failed st" "attempts st1 = attempts st"
    by simp_all
  have up: "[i..<i + length (url # rest)] = i # [Suc i..<Suc i + length rest]"
    by (simp del: upt_Suc add: upt_conv_Cons)
  show ?case
  proof (cases ok)
    case True
    with d ok fr show ?thesis
      unfolding up by (simp add: Let_def Cons.IH outcome_def)
  next
    case False
    with d ok fr show ?thesis
      unfolding up by (simp add: Let_def Cons.IH outcome_def)
  qed
qed

lemma zip_upt_nth: "zip [0..<length xs] xs = map (\<lambda>j. (j, xs ! j)) [0..<length xs]"
  by (rule nth_equalityI) simp_all

lemma filter_only: "k < n \<Longrightarrow> filter (\<lambda>j. j = k) [0..<n] = [k]"
proof (induction n)
  case 0 then show ?case by simp
next
  case (Suc n)
  show ?case
  proof (cases "k < n")
    case True
    with Suc.IH have "filter (\<lambda>j. j = k) [0..<n] = [k]" by simp
    with True show ?thesis by simp
  next
    case False
    with Suc.prems have kn: "k = n" by simp
    have "filter (\<lambda>j. j = n) [0..<n] = []" by (simp add: filter_empty_conv)
    with kn show ?thesis by simp
  qed
qed

subsection \<open>The resolution loops as searches in a list\<close>

lemma get_full_video_path_find:
  "get_full_video_path path_exists cur dl name =
   find path_exists (folders_then_absolute cur dl name)"
  by (simp add: get_full_video_path_def folders_then_absolute_def)

lemma selected_file_path_find:
  "\<not> path_exists [] \<Longrightarrow>
   selected_file_path path_exists cur dl name =
   find path_exists (folders_then_absolute cur dl name)"
  by (auto simp: selected_file_path_def folders_then_absolute_def not_set_def Let_def)

lemma try_folders_find:
  "try_folders path_exists folders name None =
   find path_exists (map (\<lambda>folder. path_join folder name) folders)"
  by (induction folders) (simp_all add: Let_def)

lemma shorts_file_path_find:
  "\<not> path_exists [] \<Longrightarrow>
   shorts_file_path path_exists home cur dl name =
   find path_exists (folders_then_well_known path_exists home cur dl name)"
  by (auto simp: shorts_file_path_def folders_then_well_known_def not_set_def Let_def
      try_folders_find)

lemma find_not_set:
  assumes "\<not> path_exists []"
  shows "not_set (find path_exists ps) = (find path_exists ps = None)"
proof (cases "find path_exists ps")
  case None
  then show ?thesis by (simp add: not_set_def)
next
  case (Some p)
  then have "path_exists p" by (auto simp: find_Some_iff)
  with assms have "p \<noteq> []" by auto
  with Some show ?thesis by (simp add: not_set_def)
qed

lemma upload_selected_files_acc:
  assumes "\<not> path_exists []"
  shows "upload_selected_files path_exists cur dl rows (sf, lg) =
    (sf @ map (\<lambda>row. (row_item row,
                       the (find path_exists (folders_then_absolute cur dl (row_file_name row))),
                       row_file_name row))
           (filter (\<lambda>row. row_selected row \<and>
                      find path_exists (folders_then_absolute cur dl (row_file_name row)) \<noteq> None)
              rows),
     lg @ map (\<lambda>row. LogFileNotFound (row_file_name row))
           (filter (\<lambda>row. row_selected row \<and>
                      find path_exists (folders_then_absolute cur dl (row_file_name row)) = None)
              rows))"
proof (induction rows arbitrary: sf lg)
  case Nil
  show ?case by simp
next
  case (Cons row rows)
  show ?case
    using assms by (simp add: Let_def Cons.IH selected_file_path_find find_not_set)
qed

lemma shorts_selected_files_acc:
  assumes "\<not> path_exists []"
  shows "shorts_selected_files path_exists home cur dl rows (sf, lg) =
    (sf @ map (\<lambda>row. the (find path_exists
                             (folders_then_well_known path_exists home cur dl (row_file_name row))))
           (filter (\<lambda>row. row_selected row \<and>
                      find path_exists
                        (folders_then_well_known path_exists home cur dl (row_file_name row)) \<noteq> None)
              rows),
     lg @ map (\<lambda>row.
            case find path_exists
                   (folders_then_well_known path_exists home cur dl (row_file_name row)) of
              Some p \<Rightarrow> LogFoundForShorts p
            | None \<Rightarrow> LogFileNotFoundForShorts (row_file_name row))
           (filter row_selected rows))"
proof (induction rows arbitrary: sf lg)
  case Nil
  show ?case by simp
next
  case (Cons row rows)
  show ?case
    using assms by (auto simp add: Let_def Cons.IH shorts_file_path_find find_not_set)
qed

subsection \<open>The walk over the uploads page\<close>

lemma before_first_older_Cons:
  "before_first_older env now (item # rest) =
     (if is_older env now item then [] else item # before_first_older env now rest)"
  by (simp add: before_first_older_def)

lemma walk_ok_stop:
  "total_checked st' = Suc (total_checked st) \<Longrightarrow> resolved st' = resolved st \<Longrightarrow>
   walk_ok env now (item # rest) st st'"
  by (simp add: walk_ok_def)

lemma walk_ok_step:
  assumes rest: "walk_ok env now rest st1 st'"
    and no: "\<not> is_older env now item"
    and tc: "total_checked st1 = Suc (total_checked st)"
    and rs: "resolved st1 = resolved st @ pre"
    and pre: "\<forall>vid \<in> set pre. pi_video_id item = Some vid \<and> in_today env now item"
  shows "walk_ok env now (item # rest) st st'"
proof -
  from rest obtain new where new:
    "total_checked st' \<le> total_checked st1 + length rest"
    "total_checked st' \<le> total_checked st1 + Suc (length (before_first_older env now rest))"
    "resolved st' = resolved st1 @ new"
    "\<forall>vid \<in> set new. \<exists>item \<in> set (before_first_older env now rest).
        pi_video_id item = Some vid \<and> in_today env now item"
    unfolding walk_ok_def by blast
  have b: "before_first_older env now (item # rest) = item # before_first_older env now rest"
    using no by (simp add: before_first_older_Cons)
  have 1: "total_checked st' \<le> total_checked st + length (item # rest)"
    using new(1) tc by simp
  have 2: "total_checked st' \<le>
           total_checked st + Suc (length (before_first_older env now (item # rest)))"
    using new(2) tc by (simp add: b)
  have 3: "resolved st' = resolved st @ (pre @ new)"
    using new(3) rs by simp
  have 4: "\<forall>vid \<in> set (pre @ new). \<exists>it \<in> set (before_first_older env now (item # rest)).
        pi_video_id it = Some vid \<and> in_today env now it"
    using new(4) pre by (auto simp: b)
  from 1 2 3 4 show ?thesis unfolding walk_ok_def by blast
qed

lemma todays_loop_walk_ok:
  "walk_ok env now items st (loop_state (todays_loop env now items st))"
proof (induction items arbitrary: st)
  case Nil
  show ?case by (simp add: loop_state_def walk_ok_def)
next
  case (Cons item rest)
  let ?st1 = "st\<lparr>total_checked := total_checked st + 1\<rparr>"
  show ?case
  proof (cases "pi_video_id item")
    case None
    then show ?thesis by (simp add: loop_state_def walk_ok_stop)
  next
    case vid: (Some vid)
    show ?thesis
    proof (cases "pi_published_at item")
      case None
      with vid show ?thesis by (simp add: loop_state_def walk_ok_stop)
    next
      case pub: (Some s)
      show ?thesis
      proof (cases "fromisoformat env (py_replace ''Z'' ''+00:00'' s)")
        case None
        with pub have no: "\<not> is_older env now item"
          by (simp add: is_older_def published_instant_def)
        have eq: "todays_loop env now (item # rest) st = todays_loop env now rest ?st1"
          using vid pub None by simp
        show ?thesis unfolding eq
          by (rule walk_ok_step [OF Cons.IH no, where pre = "[]"]) simp_all
      next
        case t: (Some t)
        with pub have inst: "published_instant env item = Some t"
          by (simp add: published_instant_def)
        consider (today) "today_start now \<le> t \<and> t \<le> today_end now"
          | (older) "t < today_start now"
          | (later) "today_end now < t \<and> today_start now \<le> t"
          by linarith
        then show ?thesis
        proof cases
          case older
          with vid pub t show ?thesis by (simp add: loop_state_def walk_ok_stop)
        next
          case later
          with inst have no: "\<not> is_older env now item" by (simp add: is_older_def)
          have eq: "todays_loop env now (item # rest) st = todays_loop env now rest ?st1"
            using vid pub t later by simp
          show ?thesis unfolding eq
            by (rule walk_ok_step [OF Cons.IH no, where pre = "[]"]) simp_all
        next
          case today
          with inst have no: "\<not> is_older env now item" and it: "in_today env now item"
            by (simp_all add: is_older_def in_today_def)
          let ?st2 = "?st1\<lparr>resolved := resolved ?st1 @ [vid]\<rparr>"
          show ?thesis
          proof (cases "check_video_status env vid")
            case None
            have eq: "todays_loop env now (item # rest) st = todays_loop env now rest ?st2"
              using vid pub t today None by (simp add: Let_def)
            show ?thesis unfolding eq
              by (rule walk_ok_step [OF Cons.IH no, where pre = "[vid]"]) (simp_all add: vid it)
          next
            case (Some info)
            let ?st3 = "?st2\<lparr>todays_videos := todays_videos ?st2 @
                                    [\<lparr>tv_video_id = vid, tv_status = info,
                                      tv_published_at = s,
                                      tv_url = ''https://www.youtube.com/watch?v='' @ vid\<rparr>]\<rparr>"
            have eq: "todays_loop env now (item # rest) st = todays_loop env now rest ?st3"
              using vid pub t today Some by (simp add: Let_def)
            show ?thesis unfolding eq
              by (rule walk_ok_step [OF Cons.IH no, where pre = "[vid]"]) (simp_all add: vid it)
          qed
        qed
      qed
    qed
  qed
qed

lemma todays_loop_exact:
  "\<forall>item \<in> set items. has_both_keys item \<Longrightarrow>
   \<exists>st'. todays_loop env now items st = Inr st' \<and>
     total_checked st' =
       total_checked st + min (length items) (Suc (length (before_first_older env now items))) \<and>
     resolved st' =
       resolved st @ map (\<lambda>item. the (pi_video_id item))
                      (filter (in_today env now) (before_first_older env now items))"
proof (induction items arbitrary: st)
  case Nil
  show ?case by (simp add: before_first_older_def)
next
  case (Cons item rest)
  from Cons.prems obtain vid s where vid: "pi_video_id item = Some vid"
    and pub: "pi_published_at item = Some s"
    by (auto simp: has_both_keys_def)
  from Cons.prems have rest: "\<forall>item \<in> set rest. has_both_keys item" by simp
  let ?st1 = "st\<lparr>total_checked := total_checked st + 1\<rparr>"
  show ?case
  proof (cases "fromisoformat env (py_replace ''Z'' ''+00:00'' s)")
    case None
    with pub have no: "\<not> is_older env now item" "\<not> in_today env now item"
      by (simp_all add: is_older_def in_today_def published_instant_def)
    from Cons.IH [OF rest, of ?st1] vid pub None no show ?thesis
      by (auto simp: before_first_older_Cons)
  next
    case t: (Some t)
    with pub have inst: "published_instant env item = Some t"
      by (simp add: published_instant_def)
    consider (today) "today_start now \<le> t \<and> t \<le> today_end now"
      | (older) "t < today_start now"
      | (later) "today_end now < t \<and> today_start now \<le> t"
      by linarith
    then show ?thesis
    proof cases
      case older
      with inst have "is_older env now item" by (simp add: is_older_def)
      with vid pub t older show ?thesis by (simp add: before_first_older_Cons)
    next
      case later
      with inst have no: "\<not> is_older env now item" "\<not> in_today env now item"
        by (simp_all add: is_older_def in_today_def)
      from Cons.IH [OF rest, of ?st1] vid pub t later no show ?thesis
        by (auto simp: before_first_older_Cons)
    next
      case today
      with inst have no: "\<not> is_older env now item" and it: "in_today env now item"
        by (simp_all add: is_older_def in_today_def)
      let ?st2 = "?st1\<lparr>resolved := resolved ?st1 @ [vid]\<rparr>"
      show ?thesis
      proof (cases "check_video_status env vid")
        case None
        from Cons.IH [OF rest, of ?st2] vid pub t today no it None show ?thesis
          by (auto simp: before_first_older_Cons Let_def)
      next
        case (Some info)
        let ?st3 = "?st2\<lparr>todays_videos := todays_videos ?st2 @
                                    [\<lparr>tv_video_id = vid, tv_status = info,
                                      tv_published_at = s,
                                      tv_url = ''https://www.youtube.com/watch?v='' @ vid\<rparr>]\<rparr>"
        from Cons.IH [OF rest, of ?st3] vid pub t today no it Some show ?thesis
          by (auto simp: before_first_older_Cons Let_def)
      qed
    qed
  qed
qed

lemma filter_todays_ids_all:
  "\<forall>item \<in> set items. ai_published_at item \<noteq> None \<and> ai_video_id item \<noteq> None \<Longrightarrow>
   filter_todays_ids today items (video_ids, inspected) =
     Some (video_ids @ map (\<lambda>item. the (ai_video_id item))
             (filter (\<lambda>item. str_ge (the (ai_published_at item)) today) items),
           inspected + length items)"
  by (induction items arbitrary: video_ids inspected) auto

subsection \<open>The header dict\<close>

lemma map_of_dict_set: "map_of (dict_set d k v) = (map_of d)(k \<mapsto> v)"
  by (induction d k v rule: dict_set.induct) auto

lemma keys_dict_set: "fst ` set (dict_set d k v) = insert k (fst ` set d)"
  by (induction d k v rule: dict_set.induct) auto

lemma distinct_dict_set:
  "distinct (map fst d) \<Longrightarrow> distinct (map fst (dict_set d k v))"
proof (induction d k v rule: dict_set.induct)
  case (1 k v)
  show ?case by simp
next
  case (2 k' v' d k v)
  have "fst ` set (dict_set d k v) = insert k (fst ` set d)" by (rule keys_dict_set)
  with 2 show ?case by auto
qed

lemma set_headers_append:
  "set_headers d (xs @ ys) = set_headers (set_headers d xs) ys"
  by (induction d xs rule: set_headers.induct) auto

lemma map_of_set_headers: "map_of (set_headers d kvs) = map_of d ++ map_of (rev kvs)"
proof (induction kvs arbitrary: d)
  case Nil
  show ?case by simp
next
  case (Cons kv rest)
  obtain k v where kv: "kv = (k, v)" by (cases kv) auto
  have "map_of (set_headers d (kv # rest)) = map_of (dict_set d k v) ++ map_of (rev rest)"
    by (simp add: kv Cons.IH)
  also have "\<dots> = map_of d ++ map_of (rev (kv # rest))"
    by (rule ext) (simp add: kv map_of_dict_set map_add_def split: option.splits)
  finally show ?case .
qed

lemma keys_set_headers: "fst ` set (set_headers d kvs) = fst ` set d \<union> fst ` set kvs"
  by (induction d kvs rule: set_headers.induct) (auto simp: keys_dict_set)

lemma distinct_set_headers:
  "distinct (map fst d) \<Longrightarrow> distinct (map fst (set_headers d kvs))"
  by (induction d kvs rule: set_headers.induct) (auto simp: distinct_dict_set)

lemma length_set_headers: "length (set_headers [] kvs) = card (fst ` set kvs)"
proof -
  have "distinct (map fst (set_headers [] kvs))" by (rule distinct_set_headers) simp
  then have "card (set (map fst (set_headers [] kvs))) = length (map fst (set_headers [] kvs))"
    by (rule distinct_card)
  then show ?thesis using keys_set_headers [of "[]" kvs] by simp
qed

subsection \<open>Where the patterns can match\<close>

lemma not_quote_blank: "\<not> is_quote (CHR '' '')"
  by (simp add: is_quote_def)

lemma takeWhile_segment:
  "\<forall>c \<in> set s. P c \<Longrightarrow> \<not> P q \<Longrightarrow> takeWhile P (s @ q # rest) = s"
  by simp

lemma match_quoted_at:
  assumes q: "is_quote q" and s: "s \<noteq> []" "\<forall>c \<in> set s. \<not> is_quote c"
  shows "match_quoted p (p @ q # s @ q # rest) = Some s"
proof -
  have "takeWhile (\<lambda>c. \<not> is_quote c) (s @ q # rest) = s"
    using s(2) q by (intro takeWhile_segment) auto
  with q s(1) show ?thesis
    by (simp add: match_quoted_def startswith_def)
qed

text \<open>No flag starts inside a run without quotes that does not end with a blank.\<close>

lemma no_flag_in_segment:
  assumes nq: "\<forall>c \<in> set s. \<not> is_quote c"
    and lb: "s = [] \<or> last s \<noteq> CHR '' ''"
    and q: "is_quote q"
    and a: "\<not> is_quote a" and b: "\<not> is_quote b"
  shows "\<not> (startswith (s @ q # rest) [a, b, CHR '' ''] \<and>
            (case drop 3 (s @ q # rest) of [] \<Rightarrow> False | x # xs \<Rightarrow> is_quote x))"
proof (cases s)
  case Nil
  with q a show ?thesis by (auto simp: startswith_def)
next
  case s1: (Cons x s')
  show ?thesis
  proof (cases s')
    case Nil
    with s1 q b show ?thesis by (auto simp: startswith_def)
  next
    case s2: (Cons y s'')
    show ?thesis
    proof (cases s'')
      case Nil
      with s1 s2 q show ?thesis by (auto simp: startswith_def not_quote_blank)
    next
      case s3: (Cons z s''')
      show ?thesis
      proof (cases s''')
        case Nil
        with s1 s2 s3 lb show ?thesis by (auto simp: startswith_def)
      next
        case (Cons w s4)
        with s1 s2 s3 nq show ?thesis by (auto simp: startswith_def)
      qed
    qed
  qed
qed

lemma match_quoted_no_flag:
  assumes "\<not> (startswith text [a, b, c] \<and>
              (case drop 3 text of [] \<Rightarrow> False | x # xs \<Rightarrow> is_quote x))"
  shows "match_quoted [a, b, c] text = None"
proof -
  have l: "length [a, b, c] = 3" by simp
  from assms show ?thesis
    unfolding match_quoted_def l by (auto split: list.splits)
qed

lemma match_header_no_flag:
  "\<not> (startswith text ''-H '' \<and> (case drop 3 text of [] \<Rightarrow> False | x # xs \<Rightarrow> is_quote x))
   \<Longrightarrow> match_header text = None"
  by (auto simp: match_header_def split: list.splits)

lemma last_tail: "cs \<noteq> [] \<Longrightarrow> last (c # cs) = last cs"
  by simp

lemma search_quoted_skip:
  assumes q: "is_quote q" and a: "\<not> is_quote a" and b: "\<not> is_quote b"
  shows "\<forall>c \<in> set s. \<not> is_quote c \<Longrightarrow> s = [] \<or> last s \<noteq> CHR '' '' \<Longrightarrow>
         search_quoted [a, b, CHR '' ''] (s @ q # rest) = search_quoted [a, b, CHR '' ''] rest"
proof (induction s)
  case Nil
  have "match_quoted [a, b, CHR '' ''] (q # rest) = None"
    using no_flag_in_segment [of "[]" q a b rest] q a b
    by (intro match_quoted_no_flag) simp
  then show ?case by simp
next
  case (Cons c cs)
  have "match_quoted [a, b, CHR '' ''] ((c # cs) @ q # rest) = None"
    using no_flag_in_segment [of "c # cs" q a b rest] Cons.prems q a b
    by (intro match_quoted_no_flag) simp
  moreover have "cs = [] \<or> last cs \<noteq> CHR '' ''"
    using Cons.prems(2) by (cases cs) auto
  ultimately show ?case using Cons.IH Cons.prems(1) by simp
qed

lemma findall_headers_skip:
  assumes q: "is_quote q"
  shows "\<forall>c \<in> set s. \<not> is_quote c \<Longrightarrow> s = [] \<or> last s \<noteq> CHR '' '' \<Longrightarrow>
         findall_headers (s @ q # rest) = findall_headers rest"
proof (induction s)
  case Nil
  have "match_header (q # rest) = None"
    using no_flag_in_segment [of "[]" q "CHR ''-''" "CHR ''H''" rest] q
    by (intro match_header_no_flag) (simp add: is_quote_def)
  then show ?case by simp
next
  case (Cons c cs)
  have "match_header ((c # cs) @ q # rest) = None"
    using no_flag_in_segment [of "c # cs" q "CHR ''-''" "CHR ''H''" rest] Cons.prems q
    by (intro match_header_no_flag) (simp add: is_quote_def)
  moreover have "cs = [] \<or> last cs \<noteq> CHR '' ''"
    using Cons.prems(2) by (cases cs) auto
  ultimately show ?case using Cons.IH Cons.prems(1) by simp
qed

lemma match_header_at:
  assumes q: "is_quote q" and k: "header_name_text k" and v: "plain_text v"
  shows "match_header (''-H '' @ q # k @ '': '' @ v @ q # rest) =
           Some ((k, v), length (''-H '' @ q # k @ '': '' @ v @ [q]))"
proof -
  let ?rest1 = "k @ CHR '':'' # CHR '' '' # v @ q # rest"
  have name: "takeWhile (\<lambda>c. c \<noteq> CHR '':'') ?rest1 = k"
    using k by (intro takeWhile_segment) (auto simp: header_name_text_def)
  have run: "takeWhile (\<lambda>c. \<not> is_quote c) (CHR '' '' # v @ q # rest) = CHR '' '' # v"
    using v q takeWhile_segment [of "CHR '' '' # v" "\<lambda>c. \<not> is_quote c" q rest]
    by (simp add: plain_text_def not_quote_blank)
  from v obtain c cs where vc: "v = c # cs" "\<not> py_isspace c"
    by (cases v) (auto simp: plain_text_def)
  have ws: "takeWhile py_isspace (CHR '' '' # v) = [CHR '' '']"
    using vc by (simp add: py_isspace_def)
  from k have kne: "k \<noteq> []" by (simp add: header_name_text_def)
  from v have vne: "v \<noteq> []" by (simp add: plain_text_def)
  have "match_header (CHR ''-'' # CHR ''H'' # CHR '' '' # q # ?rest1) =
          Some ((k, v), 3 + 1 + length k + 1 + length (CHR '' '' # v) + 1)"
    unfolding match_header_def
    by (simp add: startswith_def q name kne Let_def run ws vne
        del: takeWhile.simps takeWhile_append2)
  then show ?thesis by simp
qed

lemma findall_headers_flag:
  assumes q: "is_quote q" and k: "header_name_text (fst kv)" and v: "plain_text (snd kv)"
  shows "findall_headers (header_flag q kv @ tail) = kv # findall_headers tail"
proof -
  obtain k' v' where kv: "kv = (k', v')" by (cases kv) auto
  let ?cs = "CHR ''H'' # CHR '' '' # q # k' @ CHR '':'' # CHR '' '' # v' @ q # tail"
  have blank: "match_header (CHR '' '' # CHR ''-'' # ?cs) = None"
    by (simp add: match_header_def startswith_def)
  have m: "match_header (CHR ''-'' # ?cs) =
             Some ((k', v'), length (''-H '' @ q # k' @ '': '' @ v' @ [q]))"
    using match_header_at [OF q, of k' v' tail] k v by (simp add: kv)
  have d: "drop (length (''-H '' @ q # k' @ '': '' @ v' @ [q]) - 1) ?cs = tail"
    by (simp add: eval_nat_numeral)
  have "findall_headers (CHR '' '' # CHR ''-'' # ?cs) = findall_headers (CHR ''-'' # ?cs)"
    using blank by simp
  also have "\<dots> = (k', v') # findall_headers tail"
    using m d by simp
  finally show ?thesis by (simp add: header_flag_def kv)
qed

lemma findall_headers_flags:
  assumes q: "is_quote q"
  shows "\<forall>kv \<in> set hdrs. header_name_text (fst kv) \<and> plain_text (snd kv) \<Longrightarrow>
         findall_headers (concat (map (header_flag q) hdrs) @ tail) = hdrs @ findall_headers tail"
proof (induction hdrs)
  case Nil
  show ?case by simp
next
  case (Cons kv hdrs)
  from Cons.prems have "header_name_text (fst kv)" "plain_text (snd kv)" by simp_all
  from findall_headers_flag [OF q this, of "concat (map (header_flag q) hdrs) @ tail"]
    Cons.IH Cons.prems
  show ?case by simp
qed

lemma url_text_segment:
  "url_text u \<Longrightarrow> (\<forall>c \<in> set u. \<not> is_quote c) \<and> (u = [] \<or> last u \<noteq> CHR '' '')"
  by (auto simp: url_text_def)

lemma findall_headers_curl:
  assumes q: "is_quote q" and u: "url_text u"
  shows "findall_headers (''curl '' @ q # u @ q # rest) = findall_headers rest"
proof -
  have 1: "findall_headers (u @ q # rest) = findall_headers rest"
    using url_text_segment [OF u] by (intro findall_headers_skip [OF q]) auto
  have 2: "findall_headers (q # u @ q # rest) = findall_headers (u @ q # rest)"
    using findall_headers_skip [OF q, of "[]" "u @ q # rest"] by simp
  have "findall_headers (''curl '' @ q # u @ q # rest) = findall_headers (q # u @ q # rest)"
    by (simp add: match_header_def startswith_def)
  with 1 2 show ?thesis by simp
qed

lemma plain_text_segment:
  "plain_text s \<Longrightarrow> (\<forall>c \<in> set s. \<not> is_quote c) \<and> (s = [] \<or> last s \<noteq> CHR '' '')"
  by (auto simp: plain_text_def)

lemma findall_headers_cookie:
  assumes q: "is_quote q" and c: "case cookie of None \<Rightarrow> True | Some c \<Rightarrow> plain_text c"
  shows "findall_headers (cookie_flag q cookie) = []"
proof (cases cookie)
  case None
  then show ?thesis by (simp add: cookie_flag_def)
next
  case (Some s)
  with c have s: "plain_text s" by simp
  have 1: "findall_headers (s @ q # []) = findall_headers []"
    using plain_text_segment [OF s] by (intro findall_headers_skip [OF q]) auto
  have 2: "findall_headers (q # s @ [q]) = findall_headers (s @ [q])"
    using findall_headers_skip [OF q, of "[]" "s @ [q]"] by simp
  have "findall_headers ('' -b '' @ q # s @ [q]) = findall_headers (q # s @ [q])"
    by (simp add: match_header_def startswith_def)
  with 1 2 Some show ?thesis by (simp add: cookie_flag_def)
qed

lemma cookie_prefix: "''-b '' = [CHR ''-'', CHR ''b'', CHR '' '']"
  by simp

lemma search_cookie_skip:
  assumes q: "is_quote q" and s: "\<forall>c \<in> set s. \<not> is_quote c" "s = [] \<or> last s \<noteq> CHR '' ''"
  shows "search_quoted ''-b '' (s @ q # rest) = search_quoted ''-b '' rest"
  using search_quoted_skip [OF q, of "CHR ''-''" "CHR ''b''" s rest] s
  by (simp add: is_quote_def)

lemma search_cookie_flag:
  assumes q: "is_quote q" and k: "header_name_text (fst kv)" and v: "plain_text (snd kv)"
  shows "search_quoted ''-b '' (header_flag q kv @ tail) = search_quoted ''-b '' tail"
proof -
  obtain k' v' where kv: "kv = (k', v')" by (cases kv) auto
  let ?seg = "k' @ CHR '':'' # CHR '' '' # v'"
  from k v have nq: "\<forall>c \<in> set ?seg. \<not> is_quote c"
    by (auto simp: kv header_name_text_def plain_text_def is_quote_def)
  from v have lb: "?seg = [] \<or> last ?seg \<noteq> CHR '' ''"
    by (simp add: kv plain_text_def)
  have 1: "search_quoted ''-b '' (?seg @ q # tail) = search_quoted ''-b '' tail"
    by (rule search_cookie_skip [OF q nq lb])
  have 2: "search_quoted ''-b '' (q # ?seg @ q # tail) = search_quoted ''-b '' (?seg @ q # tail)"
    using search_cookie_skip [OF q, of "[]" "?seg @ q # tail"] by simp
  have "search_quoted ''-b '' ('' -H '' @ q # ?seg @ q # tail) =
        search_quoted ''-b '' (q # ?seg @ q # tail)"
    by (simp add: match_quoted_def startswith_def)
  with 1 2 show ?thesis by (simp add: header_flag_def kv)
qed

lemma search_cookie_flags:
  assumes q: "is_quote q"
  shows "\<forall>kv \<in> set hdrs. header_name_text (fst kv) \<and> plain_text (snd kv) \<Longrightarrow>
         search_quoted ''-b '' (concat (map (header_flag q) hdrs) @ tail) =
         search_quoted ''-b '' tail"
proof (induction hdrs)
  case Nil
  show ?case by simp
next
  case (Cons kv hdrs)
  from Cons.prems have "header_name_text (fst kv)" "plain_text (snd kv)" by simp_all
  from search_cookie_flag [OF q this, of "concat (map (header_flag q) hdrs) @ tail"]
    Cons.IH Cons.prems
  show ?case by simp
qed

lemma search_cookie_curl:
  assumes q: "is_quote q" and u: "url_text u"
  shows "search_quoted ''-b '' (''curl '' @ q # u @ q # rest) = search_quoted ''-b '' rest"
proof -
  have 1: "search_quoted ''-b '' (u @ q # rest) = search_quoted ''-b '' rest"
    using url_text_segment [OF u] by (intro search_cookie_skip [OF q]) auto
  have 2: "search_quoted ''-b '' (q # u @ q # rest) = search_quoted ''-b '' (u @ q # rest)"
    using search_cookie_skip [OF q, of "[]" "u @ q # rest"] by simp
  have "search_quoted ''-b '' (''curl '' @ q # u @ q # rest) =
        search_quoted ''-b '' (q # u @ q # rest)"
    by (simp add: match_quoted_def startswith_def)
  with 1 2 show ?thesis by simp
qed

lemma search_cookie_tail:
  assumes q: "is_quote q" and c: "case cookie of None \<Rightarrow> True | Some c \<Rightarrow> plain_text c"
  shows "search_quoted ''-b '' (cookie_flag q cookie) = cookie"
proof (cases cookie)
  case None
  then show ?thesis by (simp add: cookie_flag_def)
next
  case (Some s)
  with c have s: "plain_text s" by simp
  then have "s \<noteq> []" "\<forall>c \<in> set s. \<not> is_quote c" by (auto simp: plain_text_def)
  from match_quoted_at [OF q this, of "''-b ''" "[]"]
  have m: "match_quoted ''-b '' (CHR ''-'' # CHR ''b'' # CHR '' '' # q # s @ [q]) = Some s"
    by simp
  have b: "match_quoted ''-b '' (CHR '' '' # CHR ''-'' # CHR ''b'' # CHR '' '' # q # s @ [q]) = None"
    by (simp add: match_quoted_def startswith_def)
  from m b Some show ?thesis by (simp add: cookie_flag_def)
qed

lemma search_url:
  assumes q: "is_quote q" and u: "url_text u"
  shows "search_quoted ''curl '' (''curl '' @ q # u @ q # rest) = Some u"
proof -
  from u have "u \<noteq> []" "\<forall>c \<in> set u. \<not> is_quote c" by (auto simp: url_text_def)
  from match_quoted_at [OF q this, of "''curl ''" rest]
  show ?thesis by simp
qed

lemma strip_id:
  assumes "s \<noteq> []" "\<not> py_isspace (hd s)" "\<not> py_isspace (last s)"
  shows "strip s = s"
proof -
  from assms have 1: "dropWhile py_isspace s = s" by (cases s) auto
  from assms have "rev s \<noteq> []" "\<not> py_isspace (hd (rev s))" by (simp_all add: hd_rev)
  then have 2: "dropWhile py_isspace (rev s) = rev s" by (cases "rev s") auto
  show ?thesis by (simp add: strip_def 1 2)
qed

lemma quote_not_space: "is_quote q \<Longrightarrow> \<not> py_isspace q"
  by (auto simp: is_quote_def py_isspace_def)

lemma last_flags:
  "is_quote q \<Longrightarrow> last (concat (map (header_flag q) hdrs) @ [q]) = q"
  by simp

lemma curl_command_ends_with_quote:
  "\<exists>body. curl_command q u hdrs cookie = ''curl '' @ body @ [q]"
proof (cases cookie)
  case (Some c)
  then show ?thesis
    by (intro exI [of _ "[q] @ u @ [q] @ concat (map (header_flag q) hdrs) @ '' -b '' @ [q] @ c"])
       (simp add: curl_command_def cookie_flag_def)
next
  case None
  show ?thesis
  proof (cases hdrs rule: rev_cases)
    case Nil
    with None show ?thesis
      by (intro exI [of _ "[q] @ u"]) (simp add: curl_command_def cookie_flag_def)
  next
    case (snoc hs kv)
    with None show ?thesis
      by (intro exI [of _ "[q] @ u @ [q] @ concat (map (header_flag q) hs) @ '' -H '' @ [q] @ fst kv @ '': '' @ snd kv"])
         (simp add: curl_command_def cookie_flag_def header_flag_def)
  qed
qed

lemma strip_curl_command:
  assumes q: "is_quote q"
  shows "strip (curl_command q u hdrs cookie) = curl_command q u hdrs cookie"
proof -
  from curl_command_ends_with_quote obtain body where
    b: "curl_command q u hdrs cookie = ''curl '' @ body @ [q]" by blast
  show ?thesis
    unfolding b using quote_not_space [OF q]
    by (intro strip_id) (simp_all add: py_isspace_def)
qed

lemma wf_cookie_twice:
  "wf_command (CHR 0x22) ''https://www.douyin.com/aweme/v1/web/aweme/post/?sec_user_id=ABC''
       [(''Cookie'', ''a=1''), (''Authorization'', ''Bearer xyz'')] (Some ''b=2; c=3'')"
  by (simp add: wf_command_def is_quote_def url_text_def header_name_text_def plain_text_def
      py_isspace_def)

subsection \<open>C1: retries of the resumable upload\<close>

text \<open>
  C1 (as amended). The upload retries only on the HTTP statuses 500, 502, 503 and 504,
  sleeping \<open>2 ** retry\<close> seconds before each retry, and gives up at the sixth such error:
  five retries, six calls of \<open>next_chunk\<close> when every call fails (the first conjunct allows
  unfinished chunks in between, the second is the transport that fails every time).
  Any other HTTP error, 5xx or not, and any other exception ends the upload at once; the
  failure result carries the exception's own text after a fixed prefix.
\<close>

theorem resumable_upload_retry:
  "((\<forall>i<k. next_chunk i = Progress \<or> is_retry (next_chunk i)) \<and>
    retries_before next_chunk k = 5 \<and>
    next_chunk k = RaisesHttpError status e \<and> retriable status \<longrightarrow>
    resumable_upload next_chunk vlist =
      Some \<lparr>run_result = UploadFailure (''Max retries exceeded: '' @ e),
            run_attempts = Suc k, run_sleeps = [2, 4, 8, 16, 32]\<rparr>)
 \<and> ((\<forall>n. is_retry (next_chunk n)) \<and> next_chunk 5 = RaisesHttpError status e \<longrightarrow>
    resumable_upload next_chunk vlist =
      Some \<lparr>run_result = UploadFailure (''Max retries exceeded: '' @ e),
            run_attempts = 6, run_sleeps = [2, 4, 8, 16, 32]\<rparr>)
 \<and> ((\<forall>i<k. next_chunk i = Progress \<or> is_retry (next_chunk i)) \<and>
    retries_before next_chunk k \<le> 5 \<and>
    next_chunk k = RaisesHttpError status e \<and> \<not> retriable status \<longrightarrow>
    resumable_upload next_chunk vlist =
      Some \<lparr>run_result = UploadFailure (''HTTP Error: '' @ e),
            run_attempts = Suc k, run_sleeps = backoff (retries_before next_chunk k)\<rparr>)
 \<and> ((\<forall>i<k. next_chunk i = Progress \<or> is_retry (next_chunk i)) \<and>
    retries_before next_chunk k \<le> 5 \<and>
    next_chunk k = RaisesOther e \<longrightarrow>
    resumable_upload next_chunk vlist =
      Some \<lparr>run_result = UploadFailure (''Unexpected error: '' @ e),
            run_attempts = Suc k, run_sleeps = backoff (retries_before next_chunk k)\<rparr>)"
proof -
  have b5: "backoff 5 = [2, 4, 8, 16, 32]"
    by (simp add: backoff_def upt_rec)
  have give_up: "resumable_upload next_chunk vlist =
      Some \<lparr>run_result = UploadFailure (''Max retries exceeded: '' @ e),
            run_attempts = Suc k, run_sleeps = [2, 4, 8, 16, 32]\<rparr>"
    if pre: "\<forall>i<k. next_chunk i = Progress \<or> is_retry (next_chunk i)"
      and m: "retries_before next_chunk k = 5"
      and o: "next_chunk k = RaisesHttpError status e" and r: "retriable status"
    for k
  proof -
    from m have "retries_before next_chunk k \<le> 5" by simp
    from upload_loop_prefix [OF pre this, of vlist]
    have "resumable_upload next_chunk vlist = upload_loop next_chunk vlist (k, 5, backoff 5)"
      by (simp add: resumable_upload_def m)
    also have "\<dots> = Some \<lparr>run_result = UploadFailure (''Max retries exceeded: '' @ e),
            run_attempts = Suc k, run_sleeps = backoff 5\<rparr>"
      by (rule upload_loop_give_up [where next_chunk = next_chunk and n = k, OF o r]) simp
    finally show ?thesis by (simp add: b5)
  qed
  have always: "resumable_upload next_chunk vlist =
      Some \<lparr>run_result = UploadFailure (''Max retries exceeded: '' @ e),
            run_attempts = 6, run_sleeps = [2, 4, 8, 16, 32]\<rparr>"
    if all: "\<forall>n. is_retry (next_chunk n)" and o: "next_chunk 5 = RaisesHttpError status e"
  proof -
    from all have pre: "\<forall>i<5. next_chunk i = Progress \<or> is_retry (next_chunk i)" by simp
    from all have "filter (\<lambda>i. is_retry (next_chunk i)) [0..<5] = [0..<5]" by simp
    then have m: "retries_before next_chunk 5 = 5" by (simp add: retries_before_def)
    from all have "is_retry (next_chunk 5)" by simp
    with o have "retriable status" by (simp add: is_retry_def)
    from give_up [OF pre m o this] show ?thesis by simp
  qed
  have http: "resumable_upload next_chunk vlist =
      Some \<lparr>run_result = UploadFailure (''HTTP Error: '' @ e),
            run_attempts = Suc k, run_sleeps = backoff (retries_before next_chunk k)\<rparr>"
    if pre: "\<forall>i<k. next_chunk i = Progress \<or> is_retry (next_chunk i)"
      and m: "retries_before next_chunk k \<le> 5"
      and o: "next_chunk k = RaisesHttpError status e" and r: "\<not> retriable status"
    using upload_loop_prefix [OF pre m, of vlist]
      upload_loop_http_error [where next_chunk = next_chunk and n = k, OF o r]
    by (simp add: resumable_upload_def)
  have other: "resumable_upload next_chunk vlist =
      Some \<lparr>run_result = UploadFailure (''Unexpected error: '' @ e),
            run_attempts = Suc k, run_sleeps = backoff (retries_before next_chunk k)\<rparr>"
    if pre: "\<forall>i<k. next_chunk i = Progress \<or> is_retry (next_chunk i)"
      and m: "retries_before next_chunk k \<le> 5"
      and o: "next_chunk k = RaisesOther e"
    using upload_loop_prefix [OF pre m, of vlist]
      upload_loop_other [where next_chunk = next_chunk and n = k, OF o]
    by (simp add: resumable_upload_def)
  from give_up always http other show ?thesis by blast
qed

theorem resumable_upload_retry_witness:
  "resumable_upload always_503 list_empty =
     Some \<lparr>run_result = UploadFailure ''Max retries exceeded: Service Unavailable'',
           run_attempts = 6, run_sleeps = [2, 4, 8, 16, 32]\<rparr>
 \<and> resumable_upload always_501 list_empty =
     Some \<lparr>run_result = UploadFailure ''HTTP Error: Not Implemented'',
           run_attempts = 1, run_sleeps = []\<rparr>
 \<and> resumable_upload progress_then_broken_pipe list_empty =
     Some \<lparr>run_result = UploadFailure ''Unexpected error: Broken pipe'',
           run_attempts = 2, run_sleeps = []\<rparr>"
proof -
  have a: "\<forall>i<5. always_503 i = Progress \<or> is_retry (always_503 i)"
    by (simp add: always_503_retry)
  have b: "retries_before always_503 5 = 5"
    by (simp add: retries_before_def always_503_retry)
  have c: "always_503 5 = RaisesHttpError 503 ''Service Unavailable''"
    by (simp add: always_503_def)
  have d: "\<forall>n. is_retry (always_503 n)"
    by (simp add: always_503_retry)
  have e: "\<forall>i<0. always_501 i = Progress \<or> is_retry (always_501 i)" by simp
  have f: "retries_before always_501 0 \<le> 5" by (simp add: retries_before_def)
  have g: "always_501 0 = RaisesHttpError 501 ''Not Implemented''"
    by (simp add: always_501_def)
  have h: "\<forall>i<1. progress_then_broken_pipe i = Progress \<or> is_retry (progress_then_broken_pipe i)"
    by (simp add: progress_then_broken_pipe_def)
  have i: "retries_before progress_then_broken_pipe 1 = 0"
    by (simp add: retries_before_def progress_then_broken_pipe_def is_retry_def)
  have j: "progress_then_broken_pipe 1 = RaisesOther ''Broken pipe''"
    by (simp add: progress_then_broken_pipe_def)
  from resumable_upload_retry [of 5 always_503 503 "''Service Unavailable''" list_empty] a b c d
  have 1: "resumable_upload always_503 list_empty =
     Some \<lparr>run_result = UploadFailure ''Max retries exceeded: Service Unavailable'',
           run_attempts = 6, run_sleeps = [2, 4, 8, 16, 32]\<rparr>"
    by (simp add: retriable_def)
  from resumable_upload_retry [of 0 always_501 501 "''Not Implemented''" list_empty] e f g
  have 2: "resumable_upload always_501 list_empty =
     Some \<lparr>run_result = UploadFailure ''HTTP Error: Not Implemented'',
           run_attempts = 1, run_sleeps = []\<rparr>"
    by (simp add: retriable_def backoff_def retries_before_def)
  from resumable_upload_retry [of 1 progress_then_broken_pipe 0 "''Broken pipe''" list_empty] h i j
  have 3: "resumable_upload progress_then_broken_pipe list_empty =
     Some \<lparr>run_result = UploadFailure ''Unexpected error: Broken pipe'',
           run_attempts = 2, run_sleeps = []\<rparr>"
    by (simp add: backoff_def)
  from 1 2 3 show ?thesis by simp
qed

text \<open>
  As C1 is written (exactly five attempts, every 5xx retried) it fails: a transport that
  always answers 503 is called six times, and a 501 is not retried at all.
\<close>

theorem resumable_upload_five_attempts_counterexample:
  "map_option run_attempts (resumable_upload always_503 list_empty) = Some 6
 \<and> map_option run_attempts (resumable_upload always_503 list_empty) \<noteq> Some 5
 \<and> map_option run_sleeps (resumable_upload always_501 list_empty) = Some []
 \<and> map_option run_attempts (resumable_upload always_501 list_empty) = Some 1"
  by (simp add: resumable_upload_def upload_loop.simps upload_step_def always_503_def
      always_501_def retriable_def)

subsection \<open>C8: the result of the resumable upload\<close>

text \<open>
  C8 (as amended). When the upload completes with a remote id and the follow-up status
  query raises, the result is still a success carrying the id and the watch URL, with the
  warning that the details could not be read (first conjunct; unfinished chunks and up to
  five retries may come first). Every call whose transport does not go on reporting
  an unfinished upload for ever returns a result (second conjunct); the result type has
  the success and the failure form only, and the model of the source has no raising
  branch because the source catches every \<open>Exception\<close>.
\<close>

theorem resumable_upload_unverified_status:
  "((\<forall>i<k. next_chunk i = Progress \<or> is_retry (next_chunk i)) \<and>
    retries_before next_chunk k \<le> 5 \<and>
    next_chunk k = Completed (InsertResponse (Some vid) shown) \<and>
    vlist vid = ListRaises info_error \<longrightarrow>
    resumable_upload next_chunk vlist =
      Some \<lparr>run_result =
              UploadSuccess vid (''https://www.youtube.com/watch?v='' @ vid)
                ''unknown'' ''uploaded'' ''unknown''
                (Some (''Could not get video details: '' @ info_error)),
            run_attempts = Suc k, run_sleeps = backoff (retries_before next_chunk k)\<rparr>)
 \<and> ((\<forall>n. \<exists>k\<ge>n. next_chunk k \<noteq> Progress) \<longrightarrow>
    (\<exists>r. resumable_upload next_chunk vlist = Some r))"
proof (intro conjI impI)
  assume a: "(\<forall>i<k. next_chunk i = Progress \<or> is_retry (next_chunk i)) \<and>
    retries_before next_chunk k \<le> 5 \<and>
    next_chunk k = Completed (InsertResponse (Some vid) shown) \<and>
    vlist vid = ListRaises info_error"
  then have pre: "\<forall>i<k. next_chunk i = Progress \<or> is_retry (next_chunk i)"
    and m: "retries_before next_chunk k \<le> 5"
    and o: "next_chunk k = Completed (InsertResponse (Some vid) shown)"
    and v: "vlist vid = ListRaises info_error"
    by simp_all
  from upload_loop_prefix [OF pre m, of vlist]
    upload_loop_completed [where next_chunk = next_chunk and n = k, OF o]
  show "resumable_upload next_chunk vlist =
      Some \<lparr>run_result =
              UploadSuccess vid (''https://www.youtube.com/watch?v='' @ vid)
                ''unknown'' ''uploaded'' ''unknown''
                (Some (''Could not get video details: '' @ info_error)),
            run_attempts = Suc k, run_sleeps = backoff (retries_before next_chunk k)\<rparr>"
    by (simp add: resumable_upload_def on_response_def v)
next
  assume "\<forall>n. \<exists>k\<ge>n. next_chunk k \<noteq> Progress"
  from upload_loop_returns [OF this]
  show "\<exists>r. resumable_upload next_chunk vlist = Some r"
    by (simp add: resumable_upload_def)
qed

theorem resumable_upload_unverified_status_witness:
  "resumable_upload flaky_then_done list_times_out =
     Some \<lparr>run_result =
             UploadSuccess ''abc123'' ''https://www.youtube.com/watch?v=abc123''
               ''unknown'' ''uploaded'' ''unknown''
               (Some ''Could not get video details: timed out''),
           run_attempts = 3, run_sleeps = [2, 4]\<rparr>
 \<and> (\<exists>r. resumable_upload always_503 list_empty = Some r)"
proof -
  have a: "\<forall>i<2. flaky_then_done i = Progress \<or> is_retry (flaky_then_done i)"
    by (simp add: flaky_then_done_def is_retry_def retriable_def)
  have b: "retries_before flaky_then_done 2 = 2"
    by (simp add: retries_before_def flaky_then_done_def is_retry_def retriable_def
        numeral_2_eq_2)
  have c: "flaky_then_done 2 = Completed (InsertResponse (Some ''abc123'') ''{id: abc123}'')"
    by (simp add: flaky_then_done_def)
  have d: "list_times_out ''abc123'' = ListRaises ''timed out''"
    by (simp add: list_times_out_def)
  have e: "\<forall>n. \<exists>k\<ge>n. always_503 k \<noteq> Progress"
    by (auto simp: always_503_def)
  from resumable_upload_unverified_status
    [of 2 flaky_then_done "''abc123''" "''{id: abc123}''" list_times_out "''timed out''"]
    a b c d
  have 1: "resumable_upload flaky_then_done list_times_out =
     Some \<lparr>run_result =
             UploadSuccess ''abc123'' ''https://www.youtube.com/watch?v=abc123''
               ''unknown'' ''uploaded'' ''unknown''
               (Some ''Could not get video details: timed out''),
           run_attempts = 3, run_sleeps = [2, 4]\<rparr>"
    by (simp add: backoff_def upt_rec)
  from resumable_upload_unverified_status [of 0 always_503 "''abc123''" "''{id: abc123}''" list_empty "''timed out''"] e
  have 2: "\<exists>r. resumable_upload always_503 list_empty = Some r"
    by blast
  from 1 2 show ?thesis by simp
qed

text \<open>
  As C8 is written (every call returns) it fails: while \<open>next_chunk\<close> keeps answering
  \<open>(status, None)\<close> the loop neither returns nor raises.
\<close>

theorem resumable_upload_never_returns_counterexample:
  "resumable_upload always_progress list_empty = None"
proof (cases "resumable_upload always_progress list_empty")
  case None
  then show ?thesis .
next
  case (Some r)
  then have "\<exists>n. always_progress n \<noteq> Progress"
    unfolding resumable_upload_def by (rule upload_loop_all_progress)
  then show ?thesis by (simp add: always_progress_def)
qed

subsection \<open>C7: truncation of title and description\<close>

text \<open>
  C7. In the request body built by \<open>upload_video\<close>, a title of at most 100 characters and
  a description of at most 5000 are unchanged; one character over the limit gives a
  result within the limit that ends in the marker \<open>...\<close>; and cleaning a cleaned title or
  description changes nothing.
\<close>

theorem upload_body_truncation:
  "(length title \<le> 100 \<longrightarrow>
      snippet_title (upload_body title description tags category_id privacy) = title)
 \<and> (length title = 101 \<longrightarrow>
      length (snippet_title (upload_body title description tags category_id privacy)) \<le> 100 \<and>
      drop 97 (snippet_title (upload_body title description tags category_id privacy)) = ''...'')
 \<and> snippet_title (upload_body
        (snippet_title (upload_body title description tags category_id privacy))
        description tags category_id privacy) =
      snippet_title (upload_body title description tags category_id privacy)
 \<and> (length description \<le> 5000 \<longrightarrow>
      snippet_description (upload_body title description tags category_id privacy) = description)
 \<and> (length description = 5001 \<longrightarrow>
      length (snippet_description (upload_body title description tags category_id privacy))
        \<le> 5000 \<and>
      drop 4997 (snippet_description (upload_body title description tags category_id privacy))
        = ''...'')
 \<and> snippet_description (upload_body title
        (snippet_description (upload_body title description tags category_id privacy))
        tags category_id privacy) =
      snippet_description (upload_body title description tags category_id privacy)"
  by (simp add: upload_body_def Let_def)

theorem upload_body_truncation_witness:
  "snippet_title (upload_body ''clip'' ''about'' None ''22'' ''private'') = ''clip''
 \<and> snippet_title (upload_body (replicate 101 (CHR ''a'')) ''about'' None ''22'' ''private'')
     = replicate 97 (CHR ''a'') @ ''...''
 \<and> snippet_description (upload_body ''clip'' ''about'' None ''22'' ''private'') = ''about''
 \<and> drop 4997 (snippet_description
       (upload_body ''clip'' (replicate 5001 (CHR ''b'')) None ''22'' ''private'')) = ''...''"
proof -
  have 1: "snippet_title (upload_body ''clip'' ''about'' None ''22'' ''private'') = ''clip''"
    using upload_body_truncation [of "''clip''" "''about''" None "''22''" "''private''"]
    by simp
  have 2: "snippet_description (upload_body ''clip'' ''about'' None ''22'' ''private'') = ''about''"
    using upload_body_truncation [of "''clip''" "''about''" None "''22''" "''private''"]
    by simp
  have 3: "drop 97 (snippet_title (upload_body (replicate 101 (CHR ''a'')) ''about'' None ''22'' ''private'')) = ''...''"
    using upload_body_truncation [of "replicate 101 (CHR ''a'')" "''about''" None "''22''" "''private''"]
    by simp
  have 4: "drop 4997 (snippet_description
       (upload_body ''clip'' (replicate 5001 (CHR ''b'')) None ''22'' ''private'')) = ''...''"
    using upload_body_truncation [of "''clip''" "replicate 5001 (CHR ''b'')" None "''22''" "''private''"]
    by simp
  have 5: "snippet_title (upload_body (replicate 101 (CHR ''a'')) ''about'' None ''22'' ''private'')
     = replicate 97 (CHR ''a'') @ ''...''"
    by (simp add: upload_body_def)
  from 1 2 3 4 5 show ?thesis by simp
qed

subsection \<open>C10: the preconditions of \<open>upload_video\<close>\<close>

text \<open>
  C10. \<open>upload_video\<close> raises (\<open>Inl\<close>) instead of returning a failure result when the
  uploader is not authenticated, raises \<open>FileNotFoundError\<close> when the file does not exist,
  and raises when the file is larger than 256 GiB; a file of at most 256 GiB, so one of
  exactly 256 GiB, passes the checks and the call returns what the resumable upload of the
  built request returns.
\<close>

theorem upload_video_preconditions:
  "upload_video None path_exists getsize video_file title description tags category_id privacy
     = Inl (PyException ''Not authenticated! Call authenticate() first.'')
 \<and> (\<not> path_exists video_file \<longrightarrow>
      upload_video (Some yt) path_exists getsize video_file title description tags category_id
        privacy
      = Inl (PyFileNotFoundError
               (''Video file '' @ [CHR 0x27] @ video_file @ [CHR 0x27] @ '' not found!'')))
 \<and> (path_exists video_file \<and> getsize video_file > 256 * 1024 ^ 3 \<longrightarrow>
      upload_video (Some yt) path_exists getsize video_file title description tags category_id
        privacy
      = Inl (PyFileTooLarge (getsize video_file)))
 \<and> (path_exists video_file \<and> getsize video_file \<le> 256 * 1024 ^ 3 \<longrightarrow>
      upload_video (Some yt) path_exists getsize video_file title description tags category_id
        privacy
      = Inr (resumable_upload
               (videos_insert yt (upload_body title description tags category_id privacy))
               (videos_list yt)))"
  by (simp add: upload_video_def Let_def)

theorem upload_video_preconditions_witness:
  "gib256 = 256 * 1024 ^ 3
 \<and> upload_video (Some demo_service) one_file size_256gib ''/videos/a.mp4'' ''clip'' ''about''
       None ''22'' ''private''
     = Inr (Some \<lparr>run_result =
             UploadSuccess ''abc123'' ''https://www.youtube.com/watch?v=abc123''
               ''unknown'' ''uploaded'' ''unknown''
               (Some ''Could not get video details: timed out''),
           run_attempts = 3, run_sleeps = [2, 4]\<rparr>)
 \<and> upload_video (Some demo_service) one_file size_over_256gib ''/videos/a.mp4'' ''clip''
       ''about'' None ''22'' ''private''
     = Inl (PyFileTooLarge 274877906945)
 \<and> upload_video (Some demo_service) one_file size_256gib ''/videos/b.mp4'' ''clip'' ''about''
       None ''22'' ''private''
     = Inl (PyFileNotFoundError (''Video file '' @ [CHR 0x27] @ ''/videos/b.mp4'' @ [CHR 0x27]
              @ '' not found!''))"
proof -
  have g: "gib256 = 256 * 1024 ^ 3" by (simp add: gib256_def)
  have run: "resumable_upload flaky_then_done list_times_out =
     Some \<lparr>run_result =
             UploadSuccess ''abc123'' ''https://www.youtube.com/watch?v=abc123''
               ''unknown'' ''uploaded'' ''unknown''
               (Some ''Could not get video details: timed out''),
           run_attempts = 3, run_sleeps = [2, 4]\<rparr>"
    by (simp add: resumable_upload_def upload_loop.simps upload_step_def flaky_then_done_def
        retriable_def on_response_def list_times_out_def)
  have 1: "upload_video (Some demo_service) one_file size_256gib ''/videos/a.mp4'' ''clip'' ''about''
       None ''22'' ''private''
     = Inr (resumable_upload flaky_then_done list_times_out)"
    using upload_video_preconditions [of one_file size_256gib "''/videos/a.mp4'' " "''clip''"
        "''about''" None "''22''" "''private''" demo_service]
    by (simp add: one_file_def size_256gib_def gib256_def demo_service_def)
  have 2: "upload_video (Some demo_service) one_file size_over_256gib ''/videos/a.mp4'' ''clip''
       ''about'' None ''22'' ''private''
     = Inl (PyFileTooLarge 274877906945)"
    using upload_video_preconditions [of one_file size_over_256gib "''/videos/a.mp4'' " "''clip''"
        "''about''" None "''22''" "''private''" demo_service]
    by (simp add: one_file_def size_over_256gib_def gib256_def)
  have 3: "upload_video (Some demo_service) one_file size_256gib ''/videos/b.mp4'' ''clip'' ''about''
       None ''22'' ''private''
     = Inl (PyFileNotFoundError (''Video file '' @ [CHR 0x27] @ ''/videos/b.mp4'' @ [CHR 0x27]
              @ '' not found!''))"
    using upload_video_preconditions [of one_file size_256gib "''/videos/b.mp4'' " "''clip''"
        "''about''" None "''22''" "''private''" demo_service]
    by (simp add: one_file_def)
  from g run 1 2 3 show ?thesis by simp
qed

subsection \<open>C4: the page cap of the feed fetcher\<close>

text \<open>
  C4. A session that passes the input checks starts at cursor 0, fetches at least one and
  at most five pages, fetches nothing after an answer that ends the feed (no data, no
  \<open>aweme_list\<close> key, \<open>has_more\<close> false), and stops before the fifth page only on such
  an answer or on an exception. So a server that keeps claiming more is asked exactly five
  times.
\<close>

theorem analyze_url_page_cap:
  "analyze_url extract_user_id fetch url_var = Some r \<longrightarrow>
     pages r \<noteq> [] \<and> hd (pages r) = fetch 1 (JNum 0) \<and>
     length (pages r) \<le> 5 \<and>
     (\<forall>i. Suc i < length (pages r) \<longrightarrow> \<not> end_of_feed (pages r ! i)) \<and>
     (length (pages r) < 5 \<longrightarrow> end_of_feed (last (pages r)) \<or> analysis_failed r)"
proof
  assume a: "analyze_url extract_user_id fetch url_var = Some r"
  define st0 where "st0 = \<lparr>video_urls = [], pages = [], analysis_failed = False\<rparr>"
  from a have r: "r = analyze_loop fetch 1 (JNum 0) st0"
    by (auto simp: analyze_url_def Let_def st0_def split: if_splits option.splits)
  from analyze_loop_pages [of fetch 1 "JNum 0" st0]
  show "pages r \<noteq> [] \<and> hd (pages r) = fetch 1 (JNum 0) \<and>
     length (pages r) \<le> 5 \<and>
     (\<forall>i. Suc i < length (pages r) \<longrightarrow> \<not> end_of_feed (pages r ! i)) \<and>
     (length (pages r) < 5 \<longrightarrow> end_of_feed (last (pages r)) \<or> analysis_failed r)"
    unfolding r by (auto simp: st0_def)
qed

theorem analyze_url_page_cap_witness:
  "analyze_url user_abc123 one_page_feed post_url = Some one_page_result
 \<and> length (pages one_page_result) \<le> 5
 \<and> (end_of_feed (last (pages one_page_result)) \<or> analysis_failed one_page_result)
 \<and> pages_fetched (analyze_url user_abc123 endless_feed post_url) = 5"
proof -
  have h: "analyze_url user_abc123 one_page_feed post_url = Some one_page_result"
    by (simp add: analyze_url_def user_abc123_def post_url_def strip_def py_isspace_def
        startswith_def analyze_loop.simps process_page_def one_page_feed_def dict_get_def
        feed_item_def extract_video_url_def one_page_result_def Let_def)
  have e: "pages_fetched (analyze_url user_abc123 endless_feed post_url) = 5"
    by (simp add: analyze_url_def user_abc123_def post_url_def strip_def py_isspace_def
        startswith_def pages_fetched_def analyze_loop.simps process_page_def endless_feed_def
        dict_get_def feed_item_def extract_video_url_def Let_def)
  from analyze_url_page_cap [of user_abc123 one_page_feed post_url one_page_result] h
  have "length (pages one_page_result) \<le> 5 \<and>
        (end_of_feed (last (pages one_page_result)) \<or> analysis_failed one_page_result)"
    by (simp add: one_page_result_def)
  with h e show ?thesis by simp
qed

subsection \<open>C5: the playable URL of a feed item\<close>

text \<open>
  C5 (the code at the failing input). The item's first URL is
  \<open>http://v.example.com/play?src=http://cdn.example.com/a.mp4\<close>. The source rewrites it
  with \<open>url.replace('http', 'https')\<close>, which changes every occurrence of \<open>http\<close>: the
  scheme becomes \<open>https\<close>, and so does the \<open>http\<close> inside the query, which the claim
  says stays as it is.
\<close>

theorem extract_video_url_replaces_every_http:
  "extract_video_url nested_http_item =
     Some ''https://v.example.com/play?src=https://cdn.example.com/a.mp4''"
  by (simp add: extract_video_url_def nested_http_item_def feed_item_def startswith_def)

subsection \<open>C6: a failed download stays with its item\<close>

text \<open>
  C6. On a batch of \<open>N\<close> references where the request for item \<open>k\<close> raises, the run
  still goes once over all \<open>N\<close> items in their order, records a failure for item \<open>k\<close>,
  counts one failure per failed item (so succeeded and failed add up to \<open>N\<close>) and reports
  the totals in its last log line; if every other item downloads, the totals are one
  failure and \<open>N - 1\<close> successes.
\<close>

theorem download_videos_isolates_failure:
  "urls \<noteq> [] \<and> download_folder \<noteq> [] \<and> k < length urls \<and>
   urlopen env k (urls ! k) = UrlRaises e \<longrightarrow>
   (\<exists>r. download_videos env download_folder urls st = Some r \<and>
        map (\<lambda>a. (fst a, fst (snd a))) (attempts r) = zip [0..<length urls] urls \<and>
        attempts r ! k = (k, urls ! k, False) \<and>
        successful r + failed r = length urls \<and>
        failed r = length (filter (\<lambda>a. \<not> snd (snd a)) (attempts r)) \<and>
        last (log r) = LogDownloadComplete (successful r) (failed r) \<and>
        ((\<forall>j<length urls. j \<noteq> k \<longrightarrow> item_ok env download_folder j (urls ! j)) \<longrightarrow>
           failed r = 1 \<and> successful r = length urls - 1))"
proof
  assume a: "urls \<noteq> [] \<and> download_folder \<noteq> [] \<and> k < length urls \<and>
   urlopen env k (urls ! k) = UrlRaises e"
  let ?n = "length urls"
  let ?zs = "zip [0..<?n] urls"
  let ?ok = "\<lambda>a. item_ok env download_folder (fst a) (snd a)"
  define st0 where "st0 = st\<lparr>successful := 0, failed := 0, attempts := []\<rparr>"
  define st1 where "st1 = download_loop env download_folder 0 urls st0"
  define r where "r = st1\<lparr>log := log st1 @ [LogDownloadComplete (successful st1) (failed st1)]\<rparr>"
  from a have run: "download_videos env download_folder urls st = Some r"
    by (simp add: download_videos_def Let_def r_def st1_def st0_def)
  from download_loop_counts [of env download_folder 0 urls st0]
  have att: "attempts r = map (outcome env download_folder) ?zs"
    and suc: "successful r = length (filter ?ok ?zs)"
    and fai: "failed r = length (filter (\<lambda>a. \<not> ?ok a) ?zs)"
    by (simp_all add: r_def st1_def st0_def)
  have 1: "map (\<lambda>a. (fst a, fst (snd a))) (attempts r) = ?zs"
    by (simp add: att outcome_def comp_def)
  from a have notok: "\<not> item_ok env download_folder k (urls ! k)"
    by (simp add: item_ok_def)
  from a have 2: "attempts r ! k = (k, urls ! k, False)"
    by (simp add: att outcome_def notok)
  have 3: "successful r + failed r = ?n"
    using sum_length_filter_compl [of ?ok ?zs] by (simp add: suc fai)
  have 4: "failed r = length (filter (\<lambda>a. \<not> snd (snd a)) (attempts r))"
    by (simp add: att fai filter_map comp_def outcome_def)
  have 5: "last (log r) = LogDownloadComplete (successful r) (failed r)"
    by (simp add: r_def)
  have 6: "failed r = 1 \<and> successful r = ?n - 1"
    if others: "\<forall>j<?n. j \<noteq> k \<longrightarrow> item_ok env download_folder j (urls ! j)"
  proof -
    have "filter (\<lambda>a. \<not> ?ok a) ?zs =
          map (\<lambda>j. (j, urls ! j)) (filter (\<lambda>j. \<not> item_ok env download_folder j (urls ! j)) [0..<?n])"
      by (simp add: zip_upt_nth filter_map comp_def)
    also have "filter (\<lambda>j. \<not> item_ok env download_folder j (urls ! j)) [0..<?n] =
               filter (\<lambda>j. j = k) [0..<?n]"
      using others notok by (intro filter_cong) auto
    also from a have "\<dots> = [k]" by (simp add: filter_only)
    finally have "failed r = 1" by (simp add: fai)
    with 3 show ?thesis by simp
  qed
  from run 1 2 3 4 5 6 show "\<exists>r. download_videos env download_folder urls st = Some r \<and>
        map (\<lambda>a. (fst a, fst (snd a))) (attempts r) = zip [0..<length urls] urls \<and>
        attempts r ! k = (k, urls ! k, False) \<and>
        successful r + failed r = length urls \<and>
        failed r = length (filter (\<lambda>a. \<not> snd (snd a)) (attempts r)) \<and>
        last (log r) = LogDownloadComplete (successful r) (failed r) \<and>
        ((\<forall>j<length urls. j \<noteq> k \<longrightarrow> item_ok env download_folder j (urls ! j)) \<longrightarrow>
           failed r = 1 \<and> successful r = length urls - 1)"
    by blast
qed

theorem download_videos_isolates_failure_witness:
  "three_urls \<noteq> []
 \<and> urlopen second_times_out 1 (three_urls ! 1) = UrlRaises ''timed out''
 \<and> (\<exists>r. download_videos second_times_out ''/home/u/Douyin'' three_urls fresh_state = Some r \<and>
          attempts r ! 1 = (1, ''https://v.example.com/2.mp4'', False) \<and>
          failed r = 1 \<and> successful r = 2 \<and>
          last (log r) = LogDownloadComplete 2 1)"
proof -
  have a: "three_urls \<noteq> []" by (simp add: three_urls_def)
  have b: "urlopen second_times_out 1 (three_urls ! 1) = UrlRaises ''timed out''"
    by (simp add: second_times_out_def)
  have c: "\<forall>j<length three_urls. j \<noteq> 1 \<longrightarrow>
             item_ok second_times_out ''/home/u/Douyin'' j (three_urls ! j)"
    by (simp add: item_ok_def second_times_out_def)
  have d: "(1::nat) < length three_urls \<and> length three_urls = 3 \<and>
           three_urls ! 1 = ''https://v.example.com/2.mp4''"
    by (simp add: three_urls_def)
  from download_videos_isolates_failure
    [of three_urls "''/home/u/Douyin''" 1 second_times_out "''timed out''" fresh_state] a b c d
  obtain r where
    "download_videos second_times_out ''/home/u/Douyin'' three_urls fresh_state = Some r"
    "attempts r ! 1 = (1, ''https://v.example.com/2.mp4'', False)"
    "failed r = 1" "successful r = 2"
    "last (log r) = LogDownloadComplete 2 1"
    by auto
  with a b show ?thesis by blast
qed

subsection \<open>C9: the order of path resolution\<close>

text \<open>
  C9 (as amended). \<open>get_full_video_path\<close> and \<open>upload_selected_videos\<close> return the first
  existing path among: the name in the chosen folder (when one is set), the name in the
  download folder, the name itself when it is absolute. \<open>upload_as_shorts_thread\<close> returns
  the first existing path among: the name in the chosen folder (when set and existing), in
  the download folder, in \<open>~/Downloads\<close>, in \<open>~/Videos\<close>, in the current directory. In
  both upload loops a selected candidate that resolves is kept with its path, in order,
  and one that does not is skipped with a log line naming it. (\<open>os.path.exists('')\<close> is
  false, which the loops rely on.)
\<close>

theorem file_resolution_orders:
  "get_full_video_path path_exists cur dl name =
     find path_exists (folders_then_absolute cur dl name)
 \<and> (\<not> path_exists [] \<longrightarrow>
      selected_file_path path_exists cur dl name =
        find path_exists (folders_then_absolute cur dl name)
    \<and> shorts_file_path path_exists home cur dl name =
        find path_exists (folders_then_well_known path_exists home cur dl name)
    \<and> upload_selected_files path_exists cur dl rows ([], []) =
        (map (\<lambda>row. (row_item row,
                      the (find path_exists (folders_then_absolute cur dl (row_file_name row))),
                      row_file_name row))
           (filter (\<lambda>row. row_selected row \<and>
                      find path_exists (folders_then_absolute cur dl (row_file_name row)) \<noteq> None)
              rows),
         map (\<lambda>row. LogFileNotFound (row_file_name row))
           (filter (\<lambda>row. row_selected row \<and>
                      find path_exists (folders_then_absolute cur dl (row_file_name row)) = None)
              rows))
    \<and> shorts_selected_files path_exists home cur dl rows ([], []) =
        (map (\<lambda>row. the (find path_exists
                             (folders_then_well_known path_exists home cur dl (row_file_name row))))
           (filter (\<lambda>row. row_selected row \<and>
                      find path_exists
                        (folders_then_well_known path_exists home cur dl (row_file_name row)) \<noteq> None)
              rows),
         map (\<lambda>row.
            case find path_exists
                   (folders_then_well_known path_exists home cur dl (row_file_name row)) of
              Some p \<Rightarrow> LogFoundForShorts p
            | None \<Rightarrow> LogFileNotFoundForShorts (row_file_name row))
           (filter row_selected rows)))"
  using get_full_video_path_find [of path_exists cur dl name]
    selected_file_path_find [of path_exists cur dl name]
    shorts_file_path_find [of path_exists home cur dl name]
    upload_selected_files_acc [of path_exists cur dl rows "[]" "[]"]
    shorts_selected_files_acc [of path_exists home cur dl rows "[]" "[]"]
  by simp

theorem file_resolution_orders_witness:
  "\<not> only_in_downloads []
 \<and> shorts_file_path only_in_downloads ''/home/u'' None ''/home/u/Downloads/Douyin'' ''clip.mp4''
     = Some ''/home/u/Downloads/clip.mp4''
 \<and> upload_selected_files only_in_downloads None ''/home/u/Downloads/Douyin'' two_rows ([], [])
     = ([], [LogFileNotFound ''clip.mp4'', LogFileNotFound ''gone.mp4''])
 \<and> shorts_selected_files only_in_downloads ''/home/u'' None ''/home/u/Downloads/Douyin'' two_rows
       ([], [])
     = ([''/home/u/Downloads/clip.mp4''],
        [LogFoundForShorts ''/home/u/Downloads/clip.mp4'', LogFileNotFoundForShorts ''gone.mp4''])"
proof -
  have e: "\<not> only_in_downloads []" by (simp add: only_in_downloads_def)
  have f1: "find only_in_downloads
              (folders_then_absolute None ''/home/u/Downloads/Douyin'' ''clip.mp4'') = None"
    by (simp add: folders_then_absolute_def folder_given_def path_join_def isabs_def
        startswith_def only_in_downloads_def)
  have f2: "find only_in_downloads
              (folders_then_absolute None ''/home/u/Downloads/Douyin'' ''gone.mp4'') = None"
    by (simp add: folders_then_absolute_def folder_given_def path_join_def isabs_def
        startswith_def only_in_downloads_def)
  have g1: "find only_in_downloads
              (folders_then_well_known only_in_downloads ''/home/u'' None
                 ''/home/u/Downloads/Douyin'' ''clip.mp4'') = Some ''/home/u/Downloads/clip.mp4''"
    by (simp add: folders_then_well_known_def folder_given_def path_join_def isabs_def
        startswith_def only_in_downloads_def well_known_folders_def)
  have g2: "find only_in_downloads
              (folders_then_well_known only_in_downloads ''/home/u'' None
                 ''/home/u/Downloads/Douyin'' ''gone.mp4'') = None"
    by (simp add: folders_then_well_known_def folder_given_def path_join_def isabs_def
        startswith_def only_in_downloads_def well_known_folders_def)
  let ?dl = "''/home/u/Downloads/Douyin''"
  let ?A = "map (\<lambda>row. (row_item row,
                      the (find only_in_downloads (folders_then_absolute None ?dl (row_file_name row))),
                      row_file_name row))
           (filter (\<lambda>row. row_selected row \<and>
                      find only_in_downloads (folders_then_absolute None ?dl (row_file_name row)) \<noteq> None)
              two_rows)"
  let ?B = "map (\<lambda>row. LogFileNotFound (row_file_name row))
           (filter (\<lambda>row. row_selected row \<and>
                      find only_in_downloads (folders_then_absolute None ?dl (row_file_name row)) = None)
              two_rows)"
  let ?C = "map (\<lambda>row. the (find only_in_downloads
                             (folders_then_well_known only_in_downloads ''/home/u'' None ?dl
                                (row_file_name row))))
           (filter (\<lambda>row. row_selected row \<and>
                      find only_in_downloads
                        (folders_then_well_known only_in_downloads ''/home/u'' None ?dl
                           (row_file_name row)) \<noteq> None)
              two_rows)"
  let ?D = "map (\<lambda>row.
            case find only_in_downloads
                   (folders_then_well_known only_in_downloads ''/home/u'' None ?dl
                      (row_file_name row)) of
              Some p \<Rightarrow> LogFoundForShorts p
            | None \<Rightarrow> LogFileNotFoundForShorts (row_file_name row))
           (filter row_selected two_rows)"
  from file_resolution_orders
    [of only_in_downloads None ?dl "''clip.mp4''" "''/home/u''" two_rows] e
  have s1: "shorts_file_path only_in_downloads ''/home/u'' None ?dl ''clip.mp4'' =
              find only_in_downloads
                (folders_then_well_known only_in_downloads ''/home/u'' None ?dl ''clip.mp4'')"
    and s2: "upload_selected_files only_in_downloads None ?dl two_rows ([], []) = (?A, ?B)"
    and s3: "shorts_selected_files only_in_downloads ''/home/u'' None ?dl two_rows ([], [])
              = (?C, ?D)"
    by blast+
  have A: "?A = []" by (simp add: two_rows_def f1 f2)
  have B: "?B = [LogFileNotFound ''clip.mp4'', LogFileNotFound ''gone.mp4'']"
    by (simp add: two_rows_def f1 f2)
  have C: "?C = [''/home/u/Downloads/clip.mp4'']" by (simp add: two_rows_def g1 g2)
  have D: "?D = [LogFoundForShorts ''/home/u/Downloads/clip.mp4'',
                 LogFileNotFoundForShorts ''gone.mp4'']"
    by (simp add: two_rows_def g1 g2)
  show ?thesis
    unfolding s1 s2 s3 g1 A B C D using e by simp
qed

text \<open>
  As C9 is written (one order of four steps, the well-known folders before the absolute
  path) it fails for \<open>get_full_video_path\<close> and \<open>upload_selected_videos\<close>, which never look
  into the well-known folders: a file that lies only in \<open>~/Downloads\<close> is not found,
  though the claimed order finds it.
\<close>

theorem file_resolution_skips_well_known_counterexample:
  "find only_in_downloads
     (claimed_candidates ''/home/u'' None ''/home/u/Downloads/Douyin'' ''clip.mp4'')
     = Some ''/home/u/Downloads/clip.mp4''
 \<and> get_full_video_path only_in_downloads None ''/home/u/Downloads/Douyin'' ''clip.mp4'' = None
 \<and> selected_file_path only_in_downloads None ''/home/u/Downloads/Douyin'' ''clip.mp4'' = None"
  by (simp add: claimed_candidates_def get_full_video_path_def selected_file_path_def
      folder_given_def path_join_def isabs_def startswith_def only_in_downloads_def
      well_known_folders_def not_set_def)

subsection \<open>C2: the traversal of today's uploads\<close>

text \<open>
  C2 (as amended). \<open>YouTubeUploader.get_todays_uploads\<close> asks for a page of at most 50
  entries and walks it until it is exhausted or an entry was published before the start
  of the current UTC day, where it stops: when the service returns no more than the 50
  entries asked for, it inspects at most 50 entries and at most one entry past those in
  front of the first older one, and it calls the per-video resolver only for entries of
  today in front of the first older one; when every entry has its two keys the walk
  succeeds, inspects exactly up to and including the first older entry, and resolves
  exactly the entries of today in front of it. \<open>YouTubeAPI.get_todays_uploads\<close> does not
  stop early: it reads every entry of the page, keeps those whose timestamp string is not
  below today's midnight, and asks for those videos in one call.
\<close>

theorem todays_uploads_traversal:
  "(authenticated env \<and> channels_mine env = Inr ((channel_title, pid) # others) \<and>
    playlist_items env pid 50 = Inr items \<and> length items \<le> 50 \<longrightarrow>
      total_checked (snd (get_todays_uploads env now)) \<le> 50
    \<and> total_checked (snd (get_todays_uploads env now))
        \<le> Suc (length (before_first_older env now items))
    \<and> (\<forall>vid \<in> set (resolved (snd (get_todays_uploads env now))).
          \<exists>item \<in> set (before_first_older env now items).
             pi_video_id item = Some vid \<and> in_today env now item)
    \<and> ((\<forall>item \<in> set items. has_both_keys item) \<longrightarrow>
          fst (get_todays_uploads env now) =
            TodaysSuccess channel_title
              (todays_videos (snd (get_todays_uploads env now)))
              (length (todays_videos (snd (get_todays_uploads env now))))
              (total_checked (snd (get_todays_uploads env now)))
        \<and> total_checked (snd (get_todays_uploads env now)) =
            min (length items) (Suc (length (before_first_older env now items)))
        \<and> resolved (snd (get_todays_uploads env now)) =
            map (\<lambda>item. the (pi_video_id item))
              (filter (in_today env now) (before_first_older env now items))))
 \<and> (api_authenticated aenv \<and> api_service aenv = RealService \<and> api_credentials aenv \<and>
    api_uploads aenv = Inr (Some apid) \<and> api_playlist_items aenv apid 50 = Inr aitems \<and>
    (\<forall>item \<in> set aitems. ai_published_at item \<noteq> None \<and> ai_video_id item \<noteq> None) \<longrightarrow>
      api_inspected (api_get_todays_uploads aenv) = length aitems
    \<and> api_requested (api_get_todays_uploads aenv) =
        (let ids = map (\<lambda>item. the (ai_video_id item))
                     (filter (\<lambda>item. str_ge (the (ai_published_at item)) (api_today aenv)) aitems)
         in if ids = [] then None else Some ids))"
proof (intro conjI impI)
  assume a: "authenticated env \<and> channels_mine env = Inr ((channel_title, pid) # others) \<and>
    playlist_items env pid 50 = Inr items \<and> length items \<le> 50"
  define st0 where "st0 = \<lparr>todays_videos = [], total_checked = 0, resolved = []\<rparr>"
  have st: "snd (get_todays_uploads env now) = loop_state (todays_loop env now items st0)"
    using a by (simp add: get_todays_uploads_def loop_state_def st0_def Let_def
        split: sum.splits prod.splits)
  from todays_loop_walk_ok [of env now items st0]
  have w: "walk_ok env now items st0 (snd (get_todays_uploads env now))"
    by (simp add: st)
  from w a show "total_checked (snd (get_todays_uploads env now)) \<le> 50"
    by (simp add: walk_ok_def st0_def)
  from w show "total_checked (snd (get_todays_uploads env now))
        \<le> Suc (length (before_first_older env now items))"
    by (simp add: walk_ok_def st0_def)
  from w show "\<forall>vid \<in> set (resolved (snd (get_todays_uploads env now))).
          \<exists>item \<in> set (before_first_older env now items).
             pi_video_id item = Some vid \<and> in_today env now item"
    by (simp add: walk_ok_def st0_def)
  assume k: "\<forall>item \<in> set items. has_both_keys item"
  from todays_loop_exact [OF k, of env now st0] obtain st' where st':
    "todays_loop env now items st0 = Inr st'"
    "total_checked st' =
       total_checked st0 + min (length items) (Suc (length (before_first_older env now items)))"
    "resolved st' =
       resolved st0 @ map (\<lambda>item. the (pi_video_id item))
                      (filter (in_today env now) (before_first_older env now items))"
    by blast
  have r: "get_todays_uploads env now =
            (TodaysSuccess channel_title (todays_videos st') (length (todays_videos st'))
               (total_checked st'), st')"
    using a st'(1) by (simp add: get_todays_uploads_def st0_def Let_def)
  show "fst (get_todays_uploads env now) =
            TodaysSuccess channel_title
              (todays_videos (snd (get_todays_uploads env now)))
              (length (todays_videos (snd (get_todays_uploads env now))))
              (total_checked (snd (get_todays_uploads env now)))"
    by (simp add: r)
  show "total_checked (snd (get_todays_uploads env now)) =
            min (length items) (Suc (length (before_first_older env now items)))"
    using st'(2) by (simp add: r st0_def)
  show "resolved (snd (get_todays_uploads env now)) =
            map (\<lambda>item. the (pi_video_id item))
              (filter (in_today env now) (before_first_older env now items))"
    using st'(3) by (simp add: r st0_def)
next
  assume b: "api_authenticated aenv \<and> api_service aenv = RealService \<and> api_credentials aenv \<and>
    api_uploads aenv = Inr (Some apid) \<and> api_playlist_items aenv apid 50 = Inr aitems \<and>
    (\<forall>item \<in> set aitems. ai_published_at item \<noteq> None \<and> ai_video_id item \<noteq> None)"
  then have k: "\<forall>item \<in> set aitems. ai_published_at item \<noteq> None \<and> ai_video_id item \<noteq> None"
    by simp
  note f = filter_todays_ids_all [OF k, of "api_today aenv" "[]" 0]
  from f b show "api_inspected (api_get_todays_uploads aenv) = length aitems"
    by (simp add: api_get_todays_uploads_def Let_def split: sum.splits)
  from f b show "api_requested (api_get_todays_uploads aenv) =
        (let ids = map (\<lambda>item. the (ai_video_id item))
                     (filter (\<lambda>item. str_ge (the (ai_published_at item)) (api_today aenv)) aitems)
         in if ids = [] then None else Some ids)"
    by (simp add: api_get_todays_uploads_def Let_def split: sum.splits)
qed

theorem todays_uploads_traversal_witness:
  "total_checked (snd (get_todays_uploads sample_uploader noon)) = 3
 \<and> resolved (snd (get_todays_uploads sample_uploader noon)) = [''v1'', ''v2'']
 \<and> api_requested (api_get_todays_uploads sample_api) = Some [''new'']
 \<and> api_inspected (api_get_todays_uploads sample_api) = 3"
proof -
  have h1: "authenticated sample_uploader \<and>
            channels_mine sample_uploader = Inr ((''My channel'', ''UU1'') # []) \<and>
            playlist_items sample_uploader ''UU1'' 50 = Inr sample_page \<and>
            length sample_page \<le> 50"
    by (simp add: sample_uploader_def sample_page_def)
  have h2: "\<forall>item \<in> set sample_page. has_both_keys item"
    by (simp add: sample_page_def has_both_keys_def entry_def)
  have e1: "before_first_older sample_uploader noon sample_page =
              [entry ''v1'' ''2025-08-21T10:00:00Z'', entry ''v2'' ''2025-08-21T08:00:00Z'']"
    by (simp add: before_first_older_def sample_page_def is_older_def published_instant_def
        entry_def sample_uploader_def stamp_def startswith_def today_start_def noon_def
        day_us_def)
  have e2: "filter (in_today sample_uploader noon)
              [entry ''v1'' ''2025-08-21T10:00:00Z'', entry ''v2'' ''2025-08-21T08:00:00Z''] =
              [entry ''v1'' ''2025-08-21T10:00:00Z'', entry ''v2'' ''2025-08-21T08:00:00Z'']"
    by (simp add: in_today_def published_instant_def entry_def sample_uploader_def stamp_def
        startswith_def today_start_def today_end_def noon_def day_us_def)
  have h3: "api_authenticated sample_api \<and> api_service sample_api = RealService \<and>
            api_credentials sample_api \<and> api_uploads sample_api = Inr (Some ''UU1'') \<and>
            api_playlist_items sample_api ''UU1'' 50 = Inr api_page \<and>
            (\<forall>item \<in> set api_page. ai_published_at item \<noteq> None \<and> ai_video_id item \<noteq> None)"
    by (simp add: sample_api_def api_page_def)
  have e3: "map (\<lambda>item. the (ai_video_id item))
              (filter (\<lambda>item. str_ge (the (ai_published_at item)) (api_today sample_api))
                 api_page) = [''new'']"
    by (simp add: sample_api_def api_page_def)
  note t = todays_uploads_traversal
    [of sample_uploader "''My channel''" "''UU1''" "[]" sample_page noon sample_api "''UU1''"
        api_page]
  from t h1 h2 have
    "total_checked (snd (get_todays_uploads sample_uploader noon)) =
       min (length sample_page) (Suc (length (before_first_older sample_uploader noon sample_page)))"
    and "resolved (snd (get_todays_uploads sample_uploader noon)) =
       map (\<lambda>item. the (pi_video_id item))
         (filter (in_today sample_uploader noon)
            (before_first_older sample_uploader noon sample_page))"
    by blast+
  then have 1: "total_checked (snd (get_todays_uploads sample_uploader noon)) = 3"
    and 2: "resolved (snd (get_todays_uploads sample_uploader noon)) = [''v1'', ''v2'']"
    unfolding e1 e2 by (simp_all add: sample_page_def entry_def)
  from t h3 have "api_requested (api_get_todays_uploads sample_api) =
        (let ids = map (\<lambda>item. the (ai_video_id item))
                     (filter (\<lambda>item. str_ge (the (ai_published_at item)) (api_today sample_api))
                        api_page)
         in if ids = [] then None else Some ids)"
    and "api_inspected (api_get_todays_uploads sample_api) = length api_page"
    by blast+
  then have 3: "api_requested (api_get_todays_uploads sample_api) = Some [''new'']"
    and 4: "api_inspected (api_get_todays_uploads sample_api) = 3"
    unfolding e3 by (simp_all add: api_page_def)
  from 1 2 3 4 show ?thesis by simp
qed

text \<open>
  As C2 is written (every today's-uploads query stops at the first older entry) it fails
  for \<open>YouTubeAPI.get_todays_uploads\<close>: on a page ordered newest first whose second entry
  is of yesterday, the loop still reads the third entry.
\<close>

theorem todays_uploads_no_early_stop_counterexample:
  "api_get_todays_uploads sample_api =
     \<lparr>api_returned =
        [\<lparr>av_id = ''new'', av_published_at = ''2025-08-21T10:00:00Z'', av_status = ''public''\<rparr>],
      api_requested = Some [''new''],
      api_inspected = 3\<rparr>"
  by (simp add: api_get_todays_uploads_def sample_api_def api_page_def)

subsection \<open>C3: what the cURL parser recovers\<close>

text \<open>
  C3 (as amended). For a command made of a quoted URL (without quotes and blanks), \<open>-H\<close>
  flags of the form \<open>name: value\<close> and an optional trailing \<open>-b\<close> flag, the \<open>-H\<close> pattern
  matches exactly the flags, the parser recovers the URL, and the header map is the one
  built by writing the flags in order, the cookie of \<open>-b\<close> last under the name \<open>Cookie\<close>:
  for every name the value of the last flag with that name, so its size is the number of
  distinct names, and a \<open>-b\<close> cookie replaces a \<open>Cookie\<close> header.
\<close>

theorem parse_curl_command:
  "wf_command q u hdrs cookie \<longrightarrow>
     findall_headers (curl_command q u hdrs cookie) = hdrs
   \<and> parse_curl (curl_command q u hdrs cookie) =
       Some \<lparr>parsed_url = Some u,
             parsed_headers = set_headers [] (command_flags hdrs cookie)\<rparr>
   \<and> map_of (set_headers [] (command_flags hdrs cookie)) = map_of (rev (command_flags hdrs cookie))
   \<and> length (set_headers [] (command_flags hdrs cookie)) =
       card (fst ` set (command_flags hdrs cookie))
   \<and> (case cookie of
         None \<Rightarrow> True
       | Some c \<Rightarrow> map_of (set_headers [] (command_flags hdrs cookie)) ''Cookie'' = Some c)"
proof
  assume wf: "wf_command q u hdrs cookie"
  then have q: "is_quote q" and u: "url_text u"
    and h: "\<forall>kv \<in> set hdrs. header_name_text (fst kv) \<and> plain_text (snd kv)"
    and c: "case cookie of None \<Rightarrow> True | Some c \<Rightarrow> plain_text c"
    by (simp_all add: wf_command_def)
  let ?text = "curl_command q u hdrs cookie"
  have tx: "?text = ''curl '' @ q # u @ q # concat (map (header_flag q) hdrs) @ cookie_flag q cookie"
    by (simp add: curl_command_def)
  have ne: "?text \<noteq> []" by (simp add: curl_command_def)
  have 1: "findall_headers ?text = hdrs"
    unfolding tx
    by (simp only: findall_headers_curl [OF q u] findall_headers_flags [OF q h]
        findall_headers_cookie [OF q c] append_Nil2)
  have 2: "search_quoted ''-b '' ?text = cookie"
    unfolding tx
    by (simp only: search_cookie_curl [OF q u] search_cookie_flags [OF q h]
        search_cookie_tail [OF q c])
  have 3: "search_quoted ''curl '' ?text = Some u"
    unfolding tx by (rule search_url [OF q u])
  have 4: "(case cookie of None \<Rightarrow> set_headers [] hdrs
            | Some cookie_string \<Rightarrow> dict_set (set_headers [] hdrs) ''Cookie'' cookie_string)
           = set_headers [] (command_flags hdrs cookie)"
    by (cases cookie) (simp_all add: command_flags_def set_headers_append)
  have 5: "parse_curl ?text =
       Some \<lparr>parsed_url = Some u,
             parsed_headers = set_headers [] (command_flags hdrs cookie)\<rparr>"
    using ne 4 by (simp add: parse_curl_def strip_curl_command [OF q] 1 2 3 Let_def)
  have 6: "map_of (set_headers [] (command_flags hdrs cookie)) =
           map_of (rev (command_flags hdrs cookie))"
    by (simp add: map_of_set_headers)
  have 7: "length (set_headers [] (command_flags hdrs cookie)) =
           card (fst ` set (command_flags hdrs cookie))"
    by (rule length_set_headers)
  have 8: "case cookie of
         None \<Rightarrow> True
       | Some c \<Rightarrow> map_of (set_headers [] (command_flags hdrs cookie)) ''Cookie'' = Some c"
    by (cases cookie) (simp_all add: map_of_set_headers command_flags_def)
  from 1 5 6 7 8
  show "findall_headers (curl_command q u hdrs cookie) = hdrs
   \<and> parse_curl (curl_command q u hdrs cookie) =
       Some \<lparr>parsed_url = Some u,
             parsed_headers = set_headers [] (command_flags hdrs cookie)\<rparr>
   \<and> map_of (set_headers [] (command_flags hdrs cookie)) = map_of (rev (command_flags hdrs cookie))
   \<and> length (set_headers [] (command_flags hdrs cookie)) =
       card (fst ` set (command_flags hdrs cookie))
   \<and> (case cookie of
         None \<Rightarrow> True
       | Some c \<Rightarrow> map_of (set_headers [] (command_flags hdrs cookie)) ''Cookie'' = Some c)"
    by blast
qed

theorem parse_curl_command_witness:
  "parse_curl cookie_twice =
     Some \<lparr>parsed_url =
             Some ''https://www.douyin.com/aweme/v1/web/aweme/post/?sec_user_id=ABC'',
           parsed_headers = [(''Cookie'', ''b=2; c=3''), (''Authorization'', ''Bearer xyz'')]\<rparr>
 \<and> findall_headers cookie_twice = [(''Cookie'', ''a=1''), (''Authorization'', ''Bearer xyz'')]"
  using parse_curl_command
    [of "CHR 0x22" "''https://www.douyin.com/aweme/v1/web/aweme/post/?sec_user_id=ABC''"
        "[(''Cookie'', ''a=1''), (''Authorization'', ''Bearer xyz'')]" "Some ''b=2; c=3''"]
    wf_cookie_twice
  by (simp add: cookie_twice_def command_flags_def)

text \<open>
  As C3 is written (the size of the map is the number of matched \<open>-H\<close> flags) it fails:
  two matched flags with the same name leave one entry, and a \<open>-b\<close> flag adds an entry
  to the one of a single \<open>-H\<close> flag.
\<close>

theorem parse_curl_header_count_counterexample:
  "length (findall_headers accept_twice) = 2
 \<and> parse_curl accept_twice =
     Some \<lparr>parsed_url =
             Some ''https://www.douyin.com/aweme/v1/web/aweme/post/?sec_user_id=ABC'',
           parsed_headers = [(''Accept'', ''application/json'')]\<rparr>
 \<and> length (findall_headers bearer_and_cookie) = 1
 \<and> parse_curl bearer_and_cookie =
     Some \<lparr>parsed_url =
             Some ''https://www.douyin.com/aweme/v1/web/aweme/post/?sec_user_id=ABC'',
           parsed_headers = [(''Authorization'', ''Bearer xyz''), (''Cookie'', ''b=2; c=3'')]\<rparr>"
  by code_simp

end
